theory Spec2Isabelle
  imports Complex_Main "HOL-Library.Sublist" "HOL-Library.List_Lexorder"
begin

section \<open>Python values and exceptions\<close>

text \<open>
  The utilities of \<^verbatim>\<open>flopy/mf6/data/mfdatautil.py\<close> are embedded as HOL functions.
  A Python exception that leaves a function is the left injection of a sum type, a
  returned value the right one.
\<close>

datatype error =
    TypeError
  | ValueError
  | IndexError
  | StopIteration
  | MFDataException string

text \<open>
  A nested value tree: \<^verbatim>\<open>None\<close>, any other object that is not a list (a scalar), or a
  Python list of such trees. \<^verbatim>\<open>np.ndarray\<close> objects are not part of the modelled
  trees, so every \<^verbatim>\<open>isinstance(_, np.ndarray)\<close> test of the source is false here.
\<close>

datatype 'a pyval = PNone | Scalar 'a | PList "'a pyval list"

text \<open>
  A Python tuple is the list of its components; the records \<^verbatim>\<open>next_item\<close> yields
  hold a tree, two booleans and an integer.
\<close>

datatype 'a field = FVal "'a pyval" | FBool bool | FInt int

type_synonym 'a pytuple = "'a field list"

text \<open>Objects \<^verbatim>\<open>len\<close> is applied to: a tree, or the boolean a comparison returned.\<close>

datatype 'a obj = OVal "'a pyval" | OBool bool

fun py_len :: "'a obj \<Rightarrow> error + int" where
  "py_len (OVal (PList xs)) = Inr (int (length xs))"
| "py_len _ = Inl TypeError"

section \<open>Strings and the numeric token classifier\<close>

text \<open>
  A Python \<^verbatim>\<open>str\<close> is the list of its characters. The model follows Python 3 on
  ASCII text: \<^verbatim>\<open>str.strip\<close> and \<^verbatim>\<open>str.split\<close> treat the characters with
  \<^verbatim>\<open>str.isspace\<close> as white space, the parsers \<^verbatim>\<open>int\<close> and \<^verbatim>\<open>float\<close> skip the
  characters of C's \<^verbatim>\<open>isspace\<close> around a literal, and \<^verbatim>\<open>str.lower\<close> maps
  \<^verbatim>\<open>A\<close>..\<^verbatim>\<open>Z\<close> to \<^verbatim>\<open>a\<close>..\<^verbatim>\<open>z\<close>.
\<close>

definition Py_ISSPACE :: "char \<Rightarrow> bool" where
  "Py_ISSPACE c = (c \<in> {CHR '' '', CHR 0x09, CHR 0x0A, CHR 0x0B, CHR 0x0C, CHR 0x0D})"

definition py_isspace :: "char \<Rightarrow> bool" where
  "py_isspace c = (Py_ISSPACE c \<or> c \<in> {CHR 0x1C, CHR 0x1D, CHR 0x1E, CHR 0x1F})"

definition strip_with :: "(char \<Rightarrow> bool) \<Rightarrow> string \<Rightarrow> string" where
  "strip_with sp s = rev (dropWhile sp (rev (dropWhile sp s)))"

definition is_digit :: "char \<Rightarrow> bool" where
  "is_digit c = (c \<in> set ''0123456789'')"

definition lower_char :: "char \<Rightarrow> char" where
  "lower_char c =
     (case map_of (zip ''ABCDEFGHIJKLMNOPQRSTUVWXYZ'' ''abcdefghijklmnopqrstuvwxyz'') c of
        Some l \<Rightarrow> l
      | None \<Rightarrow> c)"

definition py_lower :: "string \<Rightarrow> string" where
  "py_lower s = map lower_char s"

subsection \<open>The literals int() and float() accept\<close>

text \<open>
  The grammar of the Python reference for the string argument of \<^verbatim>\<open>int\<close> (base 10)
  and \<^verbatim>\<open>float\<close>:
  \<^verbatim>\<open>
  digitpart   ::= digit (["_"] digit)*
  integer     ::= [sign] digitpart
  number      ::= [digitpart] "." digitpart | digitpart ["."]
  exponent    ::= ("e" | "E") [sign] digitpart
  floatnumber ::= number [exponent]
  floatvalue  ::= [sign] (floatnumber | "inf" | "infinity" | "nan")   (any letter case)
  \<close>
  \<open>digits_tail\<close> consumes \<^verbatim>\<open>(["_"] digit)*\<close> and returns the rest of the text;
  \<open>digitpart\<close> returns the rest after one digitpart, or \<open>None\<close> when the text does not
  start with a digit.
\<close>

fun digits_tail :: "string \<Rightarrow> string" where
  "digits_tail [] = []"
| "digits_tail [c] = (if is_digit c then [] else [c])"
| "digits_tail (c # d # cs) =
     (if is_digit c then digits_tail (d # cs)
      else if c = CHR ''_'' \<and> is_digit d then digits_tail cs
      else c # d # cs)"

definition digitpart :: "string \<Rightarrow> string option" where
  "digitpart s =
     (case s of [] \<Rightarrow> None | c # cs \<Rightarrow> if is_digit c then Some (digits_tail cs) else None)"

definition drop_sign :: "string \<Rightarrow> string" where
  "drop_sign s =
     (case s of [] \<Rightarrow> [] | c # cs \<Rightarrow> if c = CHR ''+'' \<or> c = CHR ''-'' then cs else s)"

definition int_literal :: "string \<Rightarrow> bool" where
  "int_literal s = (digitpart (drop_sign s) = Some [])"

definition exponent_opt :: "string \<Rightarrow> bool" where
  "exponent_opt r =
     (case r of
        [] \<Rightarrow> True
      | c # cs \<Rightarrow> (c = CHR ''e'' \<or> c = CHR ''E'') \<and> digitpart (drop_sign cs) = Some [])"

definition floatnumber :: "string \<Rightarrow> bool" where
  "floatnumber s =
     (case digitpart s of
        Some r \<Rightarrow>
          (case r of
             [] \<Rightarrow> True
           | c # cs \<Rightarrow>
               if c = CHR ''.'' then
                 (case digitpart cs of Some r' \<Rightarrow> exponent_opt r' | None \<Rightarrow> exponent_opt cs)
               else exponent_opt r)
      | None \<Rightarrow>
          (case s of
             [] \<Rightarrow> False
           | c # cs \<Rightarrow>
               c = CHR ''.'' \<and>
               (case digitpart cs of Some r' \<Rightarrow> exponent_opt r' | None \<Rightarrow> False)))"

definition float_literal :: "string \<Rightarrow> bool" where
  "float_literal s =
     (let t = drop_sign s in
      py_lower t \<in> {''inf'', ''infinity'', ''nan''} \<or> floatnumber t)"

text \<open>
  \<^verbatim>\<open>int(str)\<close> and \<^verbatim>\<open>float(str)\<close> on a string: the value of an accepted literal,
  \<^verbatim>\<open>ValueError\<close> otherwise. The integer is computed from the digits; of the float only
  the literal is kept, its binary value is not computed (the classifier discards it).
\<close>

definition int_value :: "string \<Rightarrow> int" where
  "int_value s =
     (let v = foldl (\<lambda>a c. 10 * a + (of_char c - 48)) 0 (filter is_digit s)
      in if s \<noteq> [] \<and> hd s = CHR ''-'' then - v else v)"

definition py_int :: "string \<Rightarrow> error + int" where
  "py_int s =
     (let t = strip_with Py_ISSPACE s
      in if int_literal t then Inr (int_value t) else Inl ValueError)"

datatype pyfloat = FloatLiteral string

definition py_float :: "string \<Rightarrow> error + pyfloat" where
  "py_float s =
     (let t = strip_with Py_ISSPACE s
      in if float_literal t then Inr (FloatLiteral t) else Inl ValueError)"

subsection \<open>DatumUtil\<close>

text \<open>
  \<^verbatim>\<open>
  def is_int(str):
      try:
          int(str)
          return True
      except TypeError:
          return False
      except ValueError:
          return False
  \<close>
  and \<^verbatim>\<open>is_float\<close> likewise with \<^verbatim>\<open>float(str)\<close>. The argument is a string token;
  an exception other than the two named ones would leave the function.
\<close>

definition is_int :: "string \<Rightarrow> error + bool" where
  "is_int str =
     (case py_int str of
        Inr _ \<Rightarrow> Inr True
      | Inl TypeError \<Rightarrow> Inr False
      | Inl ValueError \<Rightarrow> Inr False
      | Inl e \<Rightarrow> Inl e)"

definition is_float :: "string \<Rightarrow> error + bool" where
  "is_float str =
     (case py_float str of
        Inr _ \<Rightarrow> Inr True
      | Inl TypeError \<Rightarrow> Inr False
      | Inl ValueError \<Rightarrow> Inr False
      | Inl e \<Rightarrow> Inl e)"

subsection \<open>find_keyword\<close>

text \<open>
  \<^verbatim>\<open>
  def find_keyword(arr_line, keyword_dict):
      arr_line_lower = []
      for word in arr_line:
          # integers and floats are not keywords
          if not DatumUtil.is_int(word) and not DatumUtil.is_float(word):
              arr_line_lower.append(word.lower())
      # look for constants in order of most words to least words
      key = ''
      for num_words in range(len(arr_line_lower), -1, -1):
          key = tuple(arr_line_lower[0:num_words])
          if len(key) > 0 and key in keyword_dict:
              return key
      return None
  \<close>
  \<open>lower_loop\<close> is the first loop (the words still to visit and \<^verbatim>\<open>arr_line_lower\<close>),
  \<open>keyword_search\<close> the second, started at \<^verbatim>\<open>num_words = len(arr_line_lower)\<close> and
  counting down to 0. The dictionary is a map from key tuples to values.
\<close>

fun lower_loop :: "string list \<Rightarrow> string list \<Rightarrow> error + string list" where
  "lower_loop [] arr_line_lower = Inr arr_line_lower"
| "lower_loop (word # rest) arr_line_lower =
     (case is_int word of
        Inl e \<Rightarrow> Inl e
      | Inr True \<Rightarrow> lower_loop rest arr_line_lower
      | Inr False \<Rightarrow>
          (case is_float word of
             Inl e \<Rightarrow> Inl e
           | Inr True \<Rightarrow> lower_loop rest arr_line_lower
           | Inr False \<Rightarrow> lower_loop rest (arr_line_lower @ [py_lower word])))"

fun keyword_search :: "string list \<Rightarrow> (string list \<rightharpoonup> 'v) \<Rightarrow> nat \<Rightarrow> string list option" where
  "keyword_search arr_line_lower keyword_dict 0 =
     (let key = take 0 arr_line_lower
      in if length key > 0 \<and> keyword_dict key \<noteq> None then Some key else None)"
| "keyword_search arr_line_lower keyword_dict (Suc num_words) =
     (let key = take (Suc num_words) arr_line_lower
      in if length key > 0 \<and> keyword_dict key \<noteq> None then Some key
         else keyword_search arr_line_lower keyword_dict num_words)"

definition find_keyword :: "string list \<Rightarrow> (string list \<rightharpoonup> 'v) \<Rightarrow> error + string list option" where
  "find_keyword arr_line keyword_dict =
     (case lower_loop arr_line [] of
        Inl e \<Rightarrow> Inl e
      | Inr arr_line_lower \<Rightarrow>
          Inr (keyword_search arr_line_lower keyword_dict (length arr_line_lower)))"

text \<open>
  For the statement of the keyword search: a token is numeric when one of the two
  classifiers accepts it, and \<open>keyword_words\<close> is the line without its numeric tokens,
  in lower case.
\<close>

definition numeric_token :: "string \<Rightarrow> bool" where
  "numeric_token w = (is_int w = Inr True \<or> is_float w = Inr True)"

definition keyword_words :: "string list \<Rightarrow> string list" where
  "keyword_words arr_line = map py_lower (filter (\<lambda>w. \<not> numeric_token w) arr_line)"

section \<open>ArrayUtil.split_data_line\<close>

subsection \<open>str.split\<close>

text \<open>
  \<^verbatim>\<open>s.split()\<close> cuts \<^verbatim>\<open>s\<close> at runs of white space and returns the non-empty pieces;
  \<open>split_ws\<close> scans the text with the piece read so far. \<^verbatim>\<open>s.split(sep)\<close> with a
  separator of one character cuts at every occurrence of it and keeps empty pieces.
\<close>

fun split_ws :: "string \<Rightarrow> string \<Rightarrow> string list" where
  "split_ws [] w = (if w = [] then [] else [w])"
| "split_ws (c # cs) w =
     (if py_isspace c then (if w = [] then split_ws cs [] else w # split_ws cs [])
      else split_ws cs (w @ [c]))"

definition py_split :: "string \<Rightarrow> string list" where
  "py_split s = split_ws s []"

fun py_split_on :: "char \<Rightarrow> string \<Rightarrow> string list" where
  "py_split_on sep [] = [[]]"
| "py_split_on sep (c # cs) =
     (if c = sep then [] # py_split_on sep cs
      else (case py_split_on sep cs of
              [] \<Rightarrow> [[c]]
            | w # ws \<Rightarrow> (c # w) # ws))"

definition py_strip :: "string \<Rightarrow> string" where
  "py_strip s = strip_with py_isspace s"

subsection \<open>The tokenizer\<close>

text \<open>
  \<^verbatim>\<open>
  def split_data_line(line, external_file=False):
      quote_list = {"'", '"'}
      delimiter_list = {',': 0, '\t': 0, ' ': 0}
      clean_line = line.strip().split()
      if external_file:
          max_split_size = len(clean_line)
          max_split_type = None
          for delimiter in delimiter_list:
              alt_split = line.strip().split(delimiter)
              if len(alt_split) > max_split_size:
                  max_split_size = len(alt_split)
                  max_split_type = delimiter
          if max_split_type is not None:
              clean_line = line.strip().split(max_split_type)
      arr_fixed_line = []
      index = 0
      while index < len(clean_line):
          item = clean_line[index]
          if item not in delimiter_list:
              if item and item[0] in quote_list:
                  if item[-1] in quote_list:
                      arr_fixed_line.append(item[1:-1])
                  else:
                      arr_fixed_line.append(item[1:])
                      while index < len(clean_line):
                          index += 1
                          if index < len(clean_line):
                              item = clean_line[index]
                              if item[-1] in quote_list:
                                  arr_fixed_line[-1] = '{} {}'.format(arr_fixed_line[-1], item[:-1])
                                  break
                              else:
                                  arr_fixed_line[-1] = '{} {}'.format(arr_fixed_line[-1], item)
              else:
                  arr_fixed_line.append(item)
          index += 1
      return arr_fixed_line
  \<close>
  The keys of \<^verbatim>\<open>delimiter_list\<close> are one character each and are visited in the order
  they are written. \<open>best_split\<close> is the loop over the delimiters and returns
  \<^verbatim>\<open>max_split_type\<close>; \<open>quote_span\<close> is the inner \<^verbatim>\<open>while\<close> loop and returns the index
  it stops at with the fields; \<open>fix_loop\<close> is the outer \<^verbatim>\<open>while\<close> loop. \<^verbatim>\<open>item[-1]\<close>
  of an empty item and \<^verbatim>\<open>arr_fixed_line[-1]\<close> of an empty list raise \<^verbatim>\<open>IndexError\<close>.
\<close>

definition quote_list :: "char set" where
  "quote_list = {CHR 0x27, CHR 0x22}"

definition delimiter_list :: "char list" where
  "delimiter_list = [CHR '','', CHR 0x09, CHR '' '']"

fun best_split :: "char list \<Rightarrow> string \<Rightarrow> nat \<Rightarrow> char option \<Rightarrow> char option" where
  "best_split [] s max_split_size max_split_type = max_split_type"
| "best_split (delimiter # ds) s max_split_size max_split_type =
     (let alt_split = py_split_on delimiter s
      in if length alt_split > max_split_size
         then best_split ds s (length alt_split) (Some delimiter)
         else best_split ds s max_split_size max_split_type)"

definition clean_line_of :: "string \<Rightarrow> bool \<Rightarrow> string list" where
  "clean_line_of line external_file =
     (let clean_line = py_split (py_strip line)
      in if external_file then
           (case best_split delimiter_list (py_strip line) (length clean_line) None of
              None \<Rightarrow> clean_line
            | Some max_split_type \<Rightarrow> py_split_on max_split_type (py_strip line))
         else clean_line)"

function quote_span :: "string list \<Rightarrow> nat \<Rightarrow> string list \<Rightarrow> error + (nat \<times> string list)" where
  "quote_span clean_line index arr_fixed_line =
     (if index < length clean_line then
        (if Suc index < length clean_line then
           (if clean_line ! Suc index = [] \<or> arr_fixed_line = [] then Inl IndexError
            else if last (clean_line ! Suc index) \<in> quote_list then
              Inr (Suc index,
                   butlast arr_fixed_line
                   @ [last arr_fixed_line @ '' '' @ butlast (clean_line ! Suc index)])
            else
              quote_span clean_line (Suc index)
                (butlast arr_fixed_line
                 @ [last arr_fixed_line @ '' '' @ clean_line ! Suc index]))
         else quote_span clean_line (Suc index) arr_fixed_line)
      else Inr (index, arr_fixed_line))"
  by pat_completeness auto
termination
  by (relation "measure (\<lambda>(clean_line, index, arr). Suc (length clean_line) - index)") auto

declare quote_span.simps [simp del]

lemma quote_span_index:
  "quote_span clean_line index arr = Inr (index', arr') \<Longrightarrow> index \<le> index'"
proof (induction clean_line index arr rule: quote_span.induct)
  case (1 clean_line index arr)
  show ?case
  proof (cases "index < length clean_line")
    case False
    with "1.prems" show ?thesis
      by (simp add: quote_span.simps [of clean_line index])
  next
    case True
    note i = this
    show ?thesis
    proof (cases "Suc index < length clean_line")
      case False
      with i "1.prems" have "quote_span clean_line (Suc index) arr = Inr (index', arr')"
        by (simp add: quote_span.simps [of clean_line index])
      from "1.IH"(2) [OF i False this] show ?thesis
        by simp
    next
      case True
      note s = this
      show ?thesis
      proof (cases "clean_line ! Suc index = [] \<or> arr = [] \<or>
                    last (clean_line ! Suc index) \<in> quote_list")
        case True
        with i s "1.prems" show ?thesis
          by (auto simp: quote_span.simps [of clean_line index] split: if_splits)
      next
        case False
        with i s "1.prems" have
          "quote_span clean_line (Suc index)
             (butlast arr @ [last arr @ '' '' @ clean_line ! Suc index]) = Inr (index', arr')"
          by (simp add: quote_span.simps [of clean_line index])
        from "1.IH"(1) [OF i s _ _ this] False show ?thesis
          by simp
      qed
    qed
  qed
qed

function fix_loop :: "string list \<Rightarrow> nat \<Rightarrow> string list \<Rightarrow> error + string list" where
  "fix_loop clean_line index arr_fixed_line =
     (if index < length clean_line then
        (if clean_line ! index \<notin> set (map (\<lambda>d. [d]) delimiter_list) then
           (if clean_line ! index \<noteq> [] \<and> hd (clean_line ! index) \<in> quote_list then
              (if last (clean_line ! index) \<in> quote_list then
                 fix_loop clean_line (Suc index)
                   (arr_fixed_line @ [butlast (tl (clean_line ! index))])
               else
                 (case quote_span clean_line index
                         (arr_fixed_line @ [tl (clean_line ! index)]) of
                    Inl e \<Rightarrow> Inl e
                  | Inr (index', arr') \<Rightarrow> fix_loop clean_line (Suc index') arr'))
            else fix_loop clean_line (Suc index) (arr_fixed_line @ [clean_line ! index]))
         else fix_loop clean_line (Suc index) arr_fixed_line)
      else Inr arr_fixed_line)"
  by pat_completeness auto
termination
proof (relation "measure (\<lambda>(clean_line, index, arr). length clean_line - index)")
  fix clean_line :: "string list" and index :: nat and arr_fixed_line :: "string list"
    and x2 :: "nat \<times> string list" and index' :: nat and arr' :: "string list"
  assume "index < length clean_line"
    and "quote_span clean_line index (arr_fixed_line @ [tl (clean_line ! index)]) = Inr x2"
    and "(index', arr') = x2"
  then have "index \<le> index'"
    using quote_span_index [of clean_line index _ index' arr'] by auto
  with \<open>index < length clean_line\<close>
  show "((clean_line, Suc index', arr'), (clean_line, index, arr_fixed_line))
          \<in> measure (\<lambda>(clean_line, index, arr). length clean_line - index)"
    by auto
qed auto

declare fix_loop.simps [simp del]

definition split_data_line :: "string \<Rightarrow> bool \<Rightarrow> error + string list" where
  "split_data_line line external_file = fix_loop (clean_line_of line external_file) 0 []"

text \<open>
  For the statements about quoted spans: the tokens of a span joined by single spaces,
  and the tokens the loop copies unchanged.
\<close>

fun join_with_space :: "string list \<Rightarrow> string" where
  "join_with_space [] = []"
| "join_with_space [w] = w"
| "join_with_space (w # ws) = w @ '' '' @ join_with_space ws"

definition plain_token :: "string \<Rightarrow> bool" where
  "plain_token t =
     (t \<notin> set (map (\<lambda>d. [d]) delimiter_list) \<and> (t = [] \<or> hd t \<notin> quote_list))"

section \<open>ArrayUtil: nested lists\<close>

subsection \<open>has_one_item\<close>

text \<open>
  \<^verbatim>\<open>
  def has_one_item(current_list):
      if not isinstance(current_list, list) and not isinstance(current_list, np.ndarray):
          return True
      if len(current_list) != 1:
          return False
      if (isinstance(current_list[0], list) or
              isinstance(current_list, np.ndarray)) and \
              len(current_list[0] != 0):
          return False
      return True
  \<close>
  In the third test \<^verbatim>\<open>len\<close> is applied to the result of the comparison
  \<^verbatim>\<open>current_list[0] != 0\<close>. When \<^verbatim>\<open>current_list[0]\<close> is a list the comparison with the
  integer 0 is the boolean \<^verbatim>\<open>True\<close>, and \<^verbatim>\<open>len(True)\<close> raises \<^verbatim>\<open>TypeError\<close>.
\<close>

definition has_one_item :: "'a pyval \<Rightarrow> error + bool" where
  "has_one_item current_list =
     (case current_list of
        PList items \<Rightarrow>
          if length items \<noteq> 1 then Inr False
          else (case items ! 0 of
                  PList _ \<Rightarrow>
                    (case py_len (OBool True :: 'a obj) of
                       Inl e \<Rightarrow> Inl e
                     | Inr n \<Rightarrow> if n \<noteq> 0 then Inr False else Inr True)
                | _ \<Rightarrow> Inr True)
      | _ \<Rightarrow> Inr True)"

subsection \<open>next_item and multi_dim_list_size\<close>

text \<open>
  \<^verbatim>\<open>
  def next_item(current_list, new_list=True, nesting_change=0, end_of_list=True):
      if not isinstance(current_list, list) and not isinstance(current_list, np.ndarray):
          yield (current_list, end_of_list, new_list, nesting_change)
      else:
          list_size = 1
          for item in current_list:
              if isinstance(item, list) or isinstance(current_list, np.ndarray):
                  for item in ArrayUtil.next_item(item, list_size == 1,
                                                  nesting_change + 1,
                                                  list_size == len(current_list)):
                      yield item
                  nesting_change = -(nesting_change + 1)
              else:
                  yield (item, list_size == len(current_list), list_size == 1, nesting_change)
                  nesting_change = 0
              list_size += 1
  \<close>
  The generator is the list of the tuples it yields. \<open>next_item_loop\<close> is the
  \<^verbatim>\<open>for item in current_list\<close> loop: the items still to visit, \<^verbatim>\<open>list_size\<close>,
  \<^verbatim>\<open>len(current_list)\<close> and \<^verbatim>\<open>nesting_change\<close>.
\<close>

fun next_item :: "'a pyval \<Rightarrow> bool \<Rightarrow> int \<Rightarrow> bool \<Rightarrow> 'a pytuple list"
and next_item_loop :: "'a pyval list \<Rightarrow> nat \<Rightarrow> nat \<Rightarrow> int \<Rightarrow> 'a pytuple list"
where
  "next_item (PList current_list) new_list nesting_change end_of_list =
     next_item_loop current_list 1 (length current_list) nesting_change"
| "next_item v new_list nesting_change end_of_list =
     [[FVal v, FBool end_of_list, FBool new_list, FInt nesting_change]]"
| "next_item_loop [] list_size n nesting_change = []"
| "next_item_loop (item # rest) list_size n nesting_change =
     (case item of
        PList _ \<Rightarrow>
          next_item item (list_size = 1) (nesting_change + 1) (list_size = n)
          @ next_item_loop rest (list_size + 1) n (- (nesting_change + 1))
      | _ \<Rightarrow>
          [FVal item, FBool (list_size = n), FBool (list_size = 1), FInt nesting_change]
          # next_item_loop rest (list_size + 1) n 0)"

text \<open>
  \<^verbatim>\<open>
  def multi_dim_list_size(current_list):
      if current_list is None:
          return 0
      if not isinstance(current_list, list):
          return 1
      item_num = 0
      for item, last_item in ArrayUtil.next_item(current_list):
          item_num += 1
      return item_num
  \<close>
  The loop header unpacks every yielded tuple into the two targets \<^verbatim>\<open>item, last_item\<close>;
  Python raises \<^verbatim>\<open>ValueError\<close> when the tuple does not have exactly two components.
\<close>

definition unpack2 :: "'a pytuple \<Rightarrow> error + ('a field \<times> 'a field)" where
  "unpack2 t = (case t of [a, b] \<Rightarrow> Inr (a, b) | _ \<Rightarrow> Inl ValueError)"

fun size_loop :: "'a pytuple list \<Rightarrow> int \<Rightarrow> error + int" where
  "size_loop [] item_num = Inr item_num"
| "size_loop (t # ts) item_num =
     (case unpack2 t of
        Inl e \<Rightarrow> Inl e
      | Inr (item, last_item) \<Rightarrow> size_loop ts (item_num + 1))"

definition multi_dim_list_size :: "'a pyval \<Rightarrow> error + int" where
  "multi_dim_list_size current_list =
     (case current_list of
        PNone \<Rightarrow> Inr 0
      | Scalar _ \<Rightarrow> Inr 1
      | PList _ \<Rightarrow> size_loop (next_item current_list True 0 True) 0)"

text \<open>The direct recursive count of the scalar leaves of a tree, for comparison.\<close>

fun leaf_count :: "'a pyval \<Rightarrow> nat" where
  "leaf_count (PList xs) = sum_list (map leaf_count xs)"
| "leaf_count v = 1"

section \<open>ArrayTemplateGenerator\<close>

subsection \<open>What the schema service resolves\<close>

text \<open>
  \<^verbatim>\<open>mfdata\<close>, \<^verbatim>\<open>mfstructure\<close> and \<^verbatim>\<open>modeldimensions\<close> are modules outside this file.
  Of their enumerations the model has the members \<^verbatim>\<open>mfdatautil.py\<close> names; every
  other member of \<^verbatim>\<open>DataType\<close> is \<open>other_DataType\<close>, every datum type other than
  \<^verbatim>\<open>np.int\<close> and \<^verbatim>\<open>np.float\<close> is \<open>other_datum_type\<close>. What \<^verbatim>\<open>empty\<close> reads from the
  schema for its path and model is a record: the datum type
  (\<^verbatim>\<open>data_struct.get_datum_type()\<close>), the data type (\<^verbatim>\<open>data_struct.get_datatype()\<close>)
  and the dimensions (\<^verbatim>\<open>data_storage.get_data_dimensions(None)\<close>), whose first entry
  is the number of layers.
\<close>

datatype DataStorageType = internal_array | internal_constant | external_file'

datatype DataType = array_transient | list_transient | list_multiple | other_DataType

datatype datum_type = np_int | np_float | other_datum_type

record schema =
  datum_type_of :: datum_type
  data_type_of :: DataType
  dimension_list_of :: "int list"

subsection \<open>Templates\<close>

text \<open>
  A Python number is an \<^verbatim>\<open>int\<close> or a \<^verbatim>\<open>float\<close>. The data of a template are
  \<^verbatim>\<open>None\<close>, a number, or an array described by the call that builds it:
  \<^verbatim>\<open>np.empty(shape, dtype)\<close> or \<^verbatim>\<open>np.full(shape, fill_value, dtype)\<close>. A header is one
  of the dictionaries \<^verbatim>\<open>{'factor': _, 'iprn': _, 'data': _}\<close> and
  \<^verbatim>\<open>{'filename': _, 'factor': _, 'iprn': _}\<close>, or the data themselves.
\<close>

datatype pynum = IntNum int | FloatNum real

datatype data = NoData | Number pynum | Empty "int list" datum_type | Full "int list" pynum datum_type

datatype header =
    ArrayHeader pynum pynum data
  | FileHeader string pynum pynum
  | Bare data

datatype template = Whole header | Layers "header list"

datatype result = Template template | PeriodDict template

text \<open>
  \<^verbatim>\<open>
  def build_type_header(self, type, data=None):
      if type == DataStorageType.internal_array:
          if isinstance(self, ArrayTemplateGenerator):
              return {'factor':1.0, 'iprn':1, 'data':data}
          else:
              return None
      elif type == DataStorageType.internal_constant:
          return data
      elif type == DataStorageType.external_file:
          return {'filename':'', 'factor':1.0, 'iprn':1}
      return None
  \<close>
\<close>

definition build_type_header :: "bool \<Rightarrow> DataStorageType \<Rightarrow> data \<Rightarrow> header" where
  "build_type_header is_array_generator type' data =
     (case type' of
        internal_array \<Rightarrow>
          if is_array_generator then ArrayHeader (FloatNum 1) (IntNum 1) data else Bare NoData
      | internal_constant \<Rightarrow> Bare data
      | external_file' \<Rightarrow> FileHeader [] (FloatNum 1) (IntNum 1))"

text \<open>
  \<^verbatim>\<open>
  def _build_layer(self, data_type, data_storage_type, default_value,
                   dimension_list, all_layers=False):
      if data_storage_type == DataStorageType.internal_array:
          if default_value is None:
              if all_layers:
                  data = np.empty(dimension_list, data_type)
              else:
                  data = np.empty(dimension_list[1:], data_type)
          else:
              if all_layers:
                  data = np.full(dimension_list, default_value, data_type)
              else:
                  data = np.full(dimension_list[1:], default_value, data_type)
      elif data_storage_type == DataStorageType.internal_constant:
          if default_value is None:
              if data_type == np.int:
                  data = 0
              else:
                  data = 0.0
          else:
              data = default_value
      else:
          data = None
      return self.build_type_header(data_storage_type, data)
  \<close>
\<close>

definition build_layer ::
  "datum_type \<Rightarrow> DataStorageType \<Rightarrow> pynum option \<Rightarrow> int list \<Rightarrow> bool \<Rightarrow> header" where
  "build_layer data_type data_storage_type default_value dimension_list all_layers =
     (let data =
        (case data_storage_type of
           internal_array \<Rightarrow>
             (case default_value of
                None \<Rightarrow>
                  if all_layers then Empty dimension_list data_type
                  else Empty (drop 1 dimension_list) data_type
              | Some v \<Rightarrow>
                  if all_layers then Full dimension_list v data_type
                  else Full (drop 1 dimension_list) v data_type)
         | internal_constant \<Rightarrow>
             (case default_value of
                None \<Rightarrow> if data_type = np_int then Number (IntNum 0) else Number (FloatNum 0)
              | Some v \<Rightarrow> Number v)
         | external_file' \<Rightarrow> NoData)
      in build_type_header True data_storage_type data)"

subsection \<open>empty\<close>

text \<open>
  \<^verbatim>\<open>
  def empty(self, model=None, layered=False, data_storage_type_list=None,
            default_value=None):
      data_struct, data_dimensions = self._get_data_dimensions(model)
      datum_type = data_struct.get_datum_type()
      data_type = data_struct.get_datatype()
      data_storage = mfdata.DataStorage(...)
      dimension_list = data_storage.get_data_dimensions(None)
      if layered and dimension_list[0] > 1:
          data_with_header = ''
          if data_storage_type_list is not None and \
                  len(data_storage_type_list) != dimension_list[0]:
              except_str = 'data_storage_type_list specified with the ' \
                           'wrong size.  Size {} but expected to be ' \
                           'the same as the number of layers, ' \
                           '{}.'.format(len(data_storage_type_list), dimension_list[0])
              print(except_str)
              raise mfstructure.MFDataException(except_str)
          data_with_header = []
          for layer in range(0, dimension_list[0]):
              if data_storage_type_list is None:
                  data_storage_type = DataStorageType.internal_array
              else:
                  data_storage_type = data_storage_type_list[layer]
              data_with_header.append(self._build_layer(datum_type, data_storage_type,
                                                        default_value, dimension_list))
      else:
          if data_storage_type_list is None or \
                  data_storage_type_list[0] == DataStorageType.internal_array:
              data_storage_type = DataStorageType.internal_array
          else:
              data_storage_type = data_storage_type_list[0]
          data_with_header = self._build_layer(datum_type, data_storage_type,
                                               default_value, dimension_list, True)
      if data_type == mfstructure.DataType.array_transient:
          return {0:data_with_header}
      else:
          return data_with_header
  \<close>
  The result of a call is what it returns or raises, together with the lines it
  prints. \<open>str_int\<close> is the decimal text \<^verbatim>\<open>format\<close> writes for an integer,
  \<open>build_layers\<close> the loop over the layers still to build.
\<close>

function str_nat :: "nat \<Rightarrow> string" where
  "str_nat n =
     (if n < 10 then [''0123456789'' ! n]
      else str_nat (n div 10) @ [''0123456789'' ! (n mod 10)])"
  by pat_completeness auto
termination
  by (relation "measure id") auto

declare str_nat.simps [simp del]

definition str_int :: "int \<Rightarrow> string" where
  "str_int i = (if i < 0 then CHR ''-'' # str_nat (nat (- i)) else str_nat (nat i))"

definition wrong_size_message :: "nat \<Rightarrow> int \<Rightarrow> string" where
  "wrong_size_message size' layers =
     ''data_storage_type_list specified with the wrong size.  Size '' @ str_int (int size')
     @ '' but expected to be the same as the number of layers, '' @ str_int layers @ ''.''"

fun build_layers ::
  "datum_type \<Rightarrow> DataStorageType list option \<Rightarrow> pynum option \<Rightarrow> int list \<Rightarrow> nat list
     \<Rightarrow> header list \<Rightarrow> error + header list" where
  "build_layers datum_type data_storage_type_list default_value dimension_list []
     data_with_header = Inr data_with_header"
| "build_layers datum_type data_storage_type_list default_value dimension_list (layer # layers)
     data_with_header =
     (case data_storage_type_list of
        None \<Rightarrow>
          build_layers datum_type data_storage_type_list default_value dimension_list layers
            (data_with_header
             @ [build_layer datum_type internal_array default_value dimension_list False])
      | Some l \<Rightarrow>
          if layer < length l then
            build_layers datum_type data_storage_type_list default_value dimension_list layers
              (data_with_header
               @ [build_layer datum_type (l ! layer) default_value dimension_list False])
          else Inl IndexError)"

definition wrap_period :: "DataType \<Rightarrow> template \<Rightarrow> result" where
  "wrap_period data_type data_with_header =
     (if data_type = array_transient then PeriodDict data_with_header
      else Template data_with_header)"

definition ArrayTemplateGenerator_empty ::
  "schema \<Rightarrow> bool \<Rightarrow> DataStorageType list option \<Rightarrow> pynum option
     \<Rightarrow> (error + result) \<times> string list" where
  "ArrayTemplateGenerator_empty s layered data_storage_type_list default_value =
     (let datum_type = datum_type_of s;
          data_type = data_type_of s;
          dimension_list = dimension_list_of s
      in if layered \<and> dimension_list = [] then (Inl IndexError, [])
         else if layered \<and> hd dimension_list > 1 then
           (let wrong_size =
              (case data_storage_type_list of
                 None \<Rightarrow> None
               | Some l \<Rightarrow>
                   if int (length l) \<noteq> hd dimension_list
                   then Some (wrong_size_message (length l) (hd dimension_list))
                   else None)
            in case wrong_size of
                 Some except_str \<Rightarrow> (Inl (MFDataException except_str), [except_str])
               | None \<Rightarrow>
                   (case build_layers datum_type data_storage_type_list default_value
                           dimension_list [0 ..< nat (hd dimension_list)] [] of
                      Inl e \<Rightarrow> (Inl e, [])
                    | Inr data_with_header \<Rightarrow>
                        (Inr (wrap_period data_type (Layers data_with_header)), [])))
         else
           (case data_storage_type_list of
              None \<Rightarrow>
                (Inr (wrap_period data_type
                        (Whole (build_layer datum_type internal_array default_value
                                  dimension_list True))), [])
            | Some [] \<Rightarrow> (Inl IndexError, [])
            | Some (first # _) \<Rightarrow>
                (let data_storage_type =
                   (if first = internal_array then internal_array else first)
                 in (Inr (wrap_period data_type
                            (Whole (build_layer datum_type data_storage_type default_value
                                      dimension_list True))), []))))"

section \<open>ArrayIndexIter\<close>

text \<open>
  \<^verbatim>\<open>
  class ArrayIndexIter(object):
      def __init__(self, array_shape):
          self.array_shape = array_shape
          self.current_location = []
          self.first_item = True
          for item in array_shape:
              self.current_location.append(0)
          self.current_index = len(self.current_location) - 1

      def __iter__(self):
          return self

      def __next__(self):
          if self.first_item:
              self.first_item = False
              if len(self.current_location) > 1:
                  return tuple(self.current_location)
              else:
                  return self.current_location[0]
          while self.current_index >= 0:
              location = self.current_location[self.current_index]
              if location < self.array_shape[self.current_index] - 1:
                  self.current_location[self.current_index] += 1
                  self.current_index = len(self.current_location) - 1
                  if len(self.current_location) > 1:
                      return tuple(self.current_location)
                  else:
                      return self.current_location[0]
              else:
                  self.current_location[self.current_index] = 0
                  self.current_index -= 1
          raise StopIteration()
  \<close>
  The object is a record of its four attributes; a method returns what it returns or
  raises together with the object as it leaves it. A coordinate is a single integer
  or a tuple. \<open>location_result\<close> is the \<^verbatim>\<open>if len(self.current_location) > 1\<close>
  statement that returns the location, \<open>advance\<close> the \<^verbatim>\<open>while\<close> loop with the
  \<^verbatim>\<open>raise\<close> behind it. Reading a list at an index outside it raises \<^verbatim>\<open>IndexError\<close>.
\<close>

record ArrayIndexIter =
  array_shape :: "int list"
  current_location :: "int list"
  first_item :: bool
  current_index :: int

datatype coordinate = Index int | Location "int list"

definition ArrayIndexIter_init :: "int list \<Rightarrow> ArrayIndexIter" where
  "ArrayIndexIter_init shape =
     \<lparr>array_shape = shape,
      current_location = map (\<lambda>item. 0) shape,
      first_item = True,
      current_index = int (length (map (\<lambda>item. 0 :: int) shape)) - 1\<rparr>"

definition location_result :: "ArrayIndexIter \<Rightarrow> error + coordinate" where
  "location_result self =
     (if length (current_location self) > 1 then Inr (Location (current_location self))
      else (case current_location self of
              [] \<Rightarrow> Inl IndexError
            | x # _ \<Rightarrow> Inr (Index x)))"

function advance :: "ArrayIndexIter \<Rightarrow> (error + coordinate) \<times> ArrayIndexIter" where
  "advance self =
     (if current_index self \<ge> 0 then
        (if nat (current_index self) < length (current_location self) \<and>
            nat (current_index self) < length (array_shape self)
         then
           (if current_location self ! nat (current_index self)
                 < array_shape self ! nat (current_index self) - 1
            then
              (let self' = self
                     \<lparr>current_location :=
                        (current_location self)
                          [nat (current_index self) :=
                             current_location self ! nat (current_index self) + 1],
                      current_index := int (length (current_location self)) - 1\<rparr>
               in (location_result self', self'))
            else
              advance (self
                \<lparr>current_location := (current_location self) [nat (current_index self) := 0],
                 current_index := current_index self - 1\<rparr>))
         else (Inl IndexError, self))
      else (Inl StopIteration, self))"
  by pat_completeness auto
termination
  by (relation "measure (\<lambda>self. nat (current_index self + 1))") auto

declare advance.simps [simp del]

definition ArrayIndexIter_next :: "ArrayIndexIter \<Rightarrow> (error + coordinate) \<times> ArrayIndexIter" where
  "ArrayIndexIter_next self =
     (if first_item self then
        (let self' = self\<lparr>first_item := False\<rparr> in (location_result self', self'))
      else advance self)"

text \<open>
  Iterating the object (\<^verbatim>\<open>for c in ArrayIndexIter(shape)\<close>, \<^verbatim>\<open>list(...)\<close>) calls
  \<^verbatim>\<open>__next__\<close> until it raises \<^verbatim>\<open>StopIteration\<close> and collects what it returns; another
  exception ends the iteration and is raised. The result is \<open>None\<close> when the calls
  never end.
\<close>

partial_function (option) iterate ::
  "ArrayIndexIter \<Rightarrow> ((error + coordinate list) \<times> ArrayIndexIter) option" where
  "iterate self =
     (case ArrayIndexIter_next self of
        (Inl StopIteration, self') \<Rightarrow> Some (Inr [], self')
      | (Inl e, self') \<Rightarrow> Some (Inl e, self')
      | (Inr c, self') \<Rightarrow>
          Option.bind (iterate self')
            (\<lambda>(r, final). Some (case r of Inl e \<Rightarrow> Inl e | Inr cs \<Rightarrow> Inr (c # cs), final)))"

declare iterate.simps [code]

text \<open>
  For the statement of the order: the coordinates of a shape in row-major order (the
  last axis varies fastest), the way the iterator presents them (an integer for one
  axis, a tuple otherwise), and the iterator after it has run out.
\<close>

fun row_major :: "int list \<Rightarrow> int list list" where
  "row_major [] = [[]]"
| "row_major (n # ns) = concat (map (\<lambda>i. map ((#) (int i)) (row_major ns)) [0 ..< nat n])"

definition coordinates :: "int list \<Rightarrow> coordinate list" where
  "coordinates shape =
     (if length shape = 1 then map (\<lambda>l. Index (hd l)) (row_major shape)
      else map Location (row_major shape))"

definition exhausted :: "int list \<Rightarrow> ArrayIndexIter" where
  "exhausted shape =
     \<lparr>array_shape = shape,
      current_location = map (\<lambda>item. 0) shape,
      first_item = False,
      current_index = - 1\<rparr>"

text \<open>
  The location that follows a location in row-major order, for the proof: the axes
  behind the first one are advanced first; when they are all at their last index the
  first axis is advanced and the others start again at 0. \<open>None\<close> is returned behind
  the last location.
\<close>

fun successor :: "int list \<Rightarrow> int list \<Rightarrow> int list option" where
  "successor (n # ns) (x # xs) =
     (case successor ns xs of
        Some xs' \<Rightarrow> Some (x # xs')
      | None \<Rightarrow> if x < n - 1 then Some ((x + 1) # map (\<lambda>item. 0) xs) else None)"
| "successor _ _ = None"

section \<open>Properties of the numeric token classifier\<close>

lemma is_int_eq: "is_int s = Inr (int_literal (strip_with Py_ISSPACE s))"
  by (simp add: is_int_def py_int_def Let_def)

lemma is_float_eq: "is_float s = Inr (float_literal (strip_with Py_ISSPACE s))"
  by (simp add: is_float_def py_float_def Let_def)

lemma int_literal_float_literal: "int_literal t \<Longrightarrow> float_literal t"
  by (simp add: int_literal_def float_literal_def floatnumber_def Let_def)

text \<open>
  C6. On every string token \<^verbatim>\<open>is_int\<close> and \<^verbatim>\<open>is_float\<close> return a boolean and raise
  nothing: the result is \<^verbatim>\<open>True\<close> exactly when \<^verbatim>\<open>int\<close>, respectively \<^verbatim>\<open>float\<close>, parses
  the token, and \<^verbatim>\<open>False\<close> on every parse failure. Both are functions of the token
  alone.
\<close>

theorem is_int_is_float_total:
  "is_int s = Inr (\<exists>n. py_int s = Inr n) \<and> is_float s = Inr (\<exists>x. py_float s = Inr x)"
  by (simp add: is_int_def is_float_def py_int_def py_float_def Let_def)

text \<open>
  C10. Every string token that \<^verbatim>\<open>is_int\<close> accepts is accepted by \<^verbatim>\<open>is_float\<close>; the
  converse fails for the token \<^verbatim>\<open>1.5\<close>.
\<close>

theorem is_int_implies_is_float:
  "(is_int s = Inr True \<longrightarrow> is_float s = Inr True) \<and>
   is_float ''1.5'' = Inr True \<and> is_int ''1.5'' = Inr False"
proof (intro conjI impI)
  assume "is_int s = Inr True"
  then have "int_literal (strip_with Py_ISSPACE s)"
    by (simp add: is_int_eq)
  then have "float_literal (strip_with Py_ISSPACE s)"
    by (rule int_literal_float_literal)
  then show "is_float s = Inr True"
    by (simp add: is_float_eq)
next
  show "is_float ''1.5'' = Inr True"
    by (simp add: is_float_eq strip_with_def Py_ISSPACE_def float_literal_def
        floatnumber_def digitpart_def drop_sign_def is_digit_def exponent_opt_def)
next
  show "is_int ''1.5'' = Inr False"
    by (simp add: is_int_eq strip_with_def Py_ISSPACE_def int_literal_def
        digitpart_def drop_sign_def is_digit_def)
qed

theorem is_int_implies_is_float_witness:
  "is_int '' +1_000 '' = Inr True \<and> is_float '' +1_000 '' = Inr True"
proof -
  have i: "is_int '' +1_000 '' = Inr True"
    by (simp add: is_int_eq strip_with_def Py_ISSPACE_def int_literal_def
        digitpart_def drop_sign_def is_digit_def)
  from is_int_implies_is_float [of "'' +1_000 ''"] i
  have "is_float '' +1_000 '' = Inr True"
    by blast
  with i show ?thesis
    by simp
qed

section \<open>Properties of find_keyword\<close>

lemma lower_loop_eq:
  "lower_loop ws acc = Inr (acc @ keyword_words ws)"
proof (induction ws arbitrary: acc)
  case Nil
  show ?case by (simp add: keyword_words_def)
next
  case (Cons w ws)
  show ?case
    by (cases "int_literal (strip_with Py_ISSPACE w)";
        cases "float_literal (strip_with Py_ISSPACE w)")
       (simp_all add: Cons.IH keyword_words_def numeric_token_def is_int_eq is_float_eq)
qed

lemma find_keyword_eq:
  "find_keyword arr_line kd =
     Inr (keyword_search (keyword_words arr_line) kd (length (keyword_words arr_line)))"
  by (simp add: find_keyword_def lower_loop_eq)

lemma keyword_search_Some:
  "keyword_search ws kd n = Some key \<Longrightarrow>
     key \<noteq> [] \<and> key \<in> dom kd \<and>
     (\<exists>m \<le> n. key = take m ws \<and> (\<forall>j. m < j \<and> j \<le> n \<longrightarrow> take j ws = [] \<or> take j ws \<notin> dom kd))"
proof (induction n)
  case 0
  then show ?case by simp
next
  case (Suc n)
  show ?case
  proof (cases "take (Suc n) ws \<noteq> [] \<and> take (Suc n) ws \<in> dom kd")
    case True
    with Suc.prems have "key = take (Suc n) ws"
      by (auto simp: Let_def dom_def)
    with True show ?thesis
      by auto
  next
    case False
    with Suc.prems have "keyword_search ws kd n = Some key"
      by (auto simp: Let_def dom_def split: if_splits)
    from Suc.IH [OF this] obtain m where
      m: "key \<noteq> []" "key \<in> dom kd" "m \<le> n" "key = take m ws"
         "\<forall>j. m < j \<and> j \<le> n \<longrightarrow> take j ws = [] \<or> take j ws \<notin> dom kd"
      by blast
    have "\<forall>j. m < j \<and> j \<le> Suc n \<longrightarrow> take j ws = [] \<or> take j ws \<notin> dom kd"
      using m(5) False by (metis le_SucE)
    with m show ?thesis
      by (metis le_SucI)
  qed
qed

lemma keyword_search_None:
  "keyword_search ws kd n = None \<Longrightarrow> j \<le> n \<Longrightarrow> take j ws = [] \<or> take j ws \<notin> dom kd"
proof (induction n)
  case 0
  then show ?case by simp
next
  case (Suc n)
  from Suc.prems(1) have here: "take (Suc n) ws = [] \<or> take (Suc n) ws \<notin> dom kd"
    by (auto simp: Let_def dom_def split: if_splits)
  from Suc.prems(1) have below: "keyword_search ws kd n = None"
    by (auto simp: Let_def split: if_splits)
  show ?case
  proof (cases "j = Suc n")
    case True
    with here show ?thesis by simp
  next
    case False
    with Suc.prems(2) have "j \<le> n" by simp
    with Suc.IH [OF below] show ?thesis by simp
  qed
qed

lemma prefix_is_take: "prefix k ws \<Longrightarrow> k = take (length k) ws \<and> length k \<le> length ws"
  by (auto simp: prefix_def)

lemmas literal_simps =
  is_int_eq is_float_eq strip_with_def Py_ISSPACE_def int_literal_def float_literal_def
  floatnumber_def digitpart_def drop_sign_def is_digit_def exponent_opt_def
  py_lower_def lower_char_def

text \<open>
  C5, as the source has it. \<^verbatim>\<open>find_keyword\<close> removes the numeric tokens from the line
  (they are not keywords), puts the remaining tokens in lower case and returns the
  longest non-empty prefix of that list which is a key of the dictionary, or
  \<^verbatim>\<open>None\<close> when no non-empty prefix of it is a key;
  \<^verbatim>\<open>find_keyword(['CONSTANT', '1.0'], {('constant',): KEY})\<close> is \<^verbatim>\<open>('constant',)\<close>.
\<close>

theorem find_keyword_longest_prefix:
  "(\<exists>r. find_keyword arr_line keyword_dict = Inr r \<and>
      (case r of
         Some key \<Rightarrow>
           key \<noteq> [] \<and> prefix key (keyword_words arr_line) \<and> key \<in> dom keyword_dict \<and>
           (\<forall>k. prefix k (keyword_words arr_line) \<and> k \<in> dom keyword_dict
                 \<longrightarrow> length k \<le> length key)
       | None \<Rightarrow>
           (\<forall>k. k \<noteq> [] \<and> prefix k (keyword_words arr_line) \<longrightarrow> k \<notin> dom keyword_dict))) \<and>
   find_keyword [''CONSTANT'', ''1.0''] [[''constant''] \<mapsto> KEY] = Inr (Some [''constant''])"
proof (intro conjI)
  let ?ws = "keyword_words arr_line"
  let ?r = "keyword_search ?ws keyword_dict (length ?ws)"
  have "case ?r of
          Some key \<Rightarrow>
            key \<noteq> [] \<and> prefix key ?ws \<and> key \<in> dom keyword_dict \<and>
            (\<forall>k. prefix k ?ws \<and> k \<in> dom keyword_dict \<longrightarrow> length k \<le> length key)
        | None \<Rightarrow> (\<forall>k. k \<noteq> [] \<and> prefix k ?ws \<longrightarrow> k \<notin> dom keyword_dict)"
  proof (cases ?r)
    case None
    have "k \<notin> dom keyword_dict" if "k \<noteq> []" "prefix k ?ws" for k
    proof -
      from that(2) have k: "k = take (length k) ?ws" "length k \<le> length ?ws"
        using prefix_is_take by blast+
      from keyword_search_None [OF None k(2)] k(1) that(1) show ?thesis
        by simp
    qed
    with None show ?thesis
      by simp
  next
    case (Some key)
    from keyword_search_Some [OF Some] obtain m where
      m: "key \<noteq> []" "key \<in> dom keyword_dict" "m \<le> length ?ws" "key = take m ?ws"
         "\<forall>j. m < j \<and> j \<le> length ?ws \<longrightarrow> take j ?ws = [] \<or> take j ?ws \<notin> dom keyword_dict"
      by blast
    have pre: "prefix key ?ws"
      unfolding m(4) by (rule take_is_prefix)
    have len: "length key = m"
      using m(3,4) by simp
    have "length k \<le> length key" if "prefix k ?ws" "k \<in> dom keyword_dict" for k
    proof (rule ccontr)
      assume "\<not> length k \<le> length key"
      with len have lt: "m < length k"
        by simp
      from that(1) have k: "k = take (length k) ?ws" "length k \<le> length ?ws"
        using prefix_is_take by blast+
      from lt have "k \<noteq> []"
        by auto
      with m(5) lt k that(2) show False
        by metis
    qed
    with Some m(1,2) pre show ?thesis
      by simp
  qed
  then show "\<exists>r. find_keyword arr_line keyword_dict = Inr r \<and>
      (case r of
         Some key \<Rightarrow>
           key \<noteq> [] \<and> prefix key (keyword_words arr_line) \<and> key \<in> dom keyword_dict \<and>
           (\<forall>k. prefix k (keyword_words arr_line) \<and> k \<in> dom keyword_dict
                 \<longrightarrow> length k \<le> length key)
       | None \<Rightarrow>
           (\<forall>k. k \<noteq> [] \<and> prefix k (keyword_words arr_line) \<longrightarrow> k \<notin> dom keyword_dict))"
    by (simp add: find_keyword_eq)
next
  have "keyword_words [''CONSTANT'', ''1.0''] = [''constant'']"
    by (simp add: keyword_words_def numeric_token_def literal_simps)
  then show "find_keyword [''CONSTANT'', ''1.0''] [[''constant''] \<mapsto> KEY] = Inr (Some [''constant''])"
    by (simp add: find_keyword_eq)
qed

theorem find_keyword_longest_prefix_witness:
  "find_keyword [''OPEN'', ''7'', ''Close'', ''x''] [[''open''] \<mapsto> (1::nat), [''open'', ''close''] \<mapsto> 2]
     = Inr (Some [''open'', ''close'']) \<and>
   prefix [''open'', ''close''] (keyword_words [''OPEN'', ''7'', ''Close'', ''x'']) \<and>
   [''open''] \<in> dom [[''open''] \<mapsto> (1::nat), [''open'', ''close''] \<mapsto> 2] \<and>
   length [''open''] \<le> length [''open'', ''close'']"
proof -
  let ?line = "[''OPEN'', ''7'', ''Close'', ''x'']"
  let ?kd = "[[''open''] \<mapsto> (1::nat), [''open'', ''close''] \<mapsto> 2]"
  have kw: "keyword_words ?line = [''open'', ''close'', ''x'']"
    by (simp add: keyword_words_def numeric_token_def literal_simps)
  have run: "find_keyword ?line ?kd = Inr (Some [''open'', ''close''])"
    by (simp add: find_keyword_eq kw)
  from find_keyword_longest_prefix [of ?line ?kd "0::nat"] run
  have "prefix [''open'', ''close''] (keyword_words ?line) \<and>
        (\<forall>k. prefix k (keyword_words ?line) \<and> k \<in> dom ?kd
              \<longrightarrow> length k \<le> length [''open'', ''close''])"
    by auto
  with run show ?thesis
    by simp
qed

text \<open>
  C5 as the specification states it (the longest prefix of the tokens) does not hold.
  The numeric tokens are removed before the search, so the key returned need not be a
  prefix of the token list (neither of the tokens as given nor of the tokens with the
  non-numeric ones in lower case), and a key that is a prefix of the token list and
  holds a numeric token is not found.
\<close>

theorem find_keyword_not_token_prefix:
  "find_keyword [''1'', ''A''] [[''a''] \<mapsto> ()] = Inr (Some [''a'']) \<and>
   \<not> prefix [''a''] (map (\<lambda>w. if numeric_token w then w else py_lower w) [''1'', ''A'']) \<and>
   \<not> prefix [''a''] [''1'', ''A''] \<and>
   find_keyword [''a'', ''1''] [[''a'', ''1''] \<mapsto> ()] = Inr None \<and>
   prefix [''a'', ''1''] (map (\<lambda>w. if numeric_token w then w else py_lower w) [''a'', ''1'']) \<and>
   [''a'', ''1''] \<in> dom [[''a'', ''1''] \<mapsto> ()]"
proof -
  have kw1: "keyword_words [''1'', ''A''] = [''a'']"
    by (simp add: keyword_words_def numeric_token_def literal_simps)
  have kw2: "keyword_words [''a'', ''1''] = [''a'']"
    by (simp add: keyword_words_def numeric_token_def literal_simps)
  have n1: "numeric_token ''1''" "\<not> numeric_token ''A''" "\<not> numeric_token ''a''"
    by (simp_all add: numeric_token_def literal_simps)
  show ?thesis
    by (simp add: find_keyword_eq kw1 kw2 n1 py_lower_def lower_char_def)
qed
section \<open>Properties of split_data_line\<close>

lemma join_with_space_cons:
  "join_with_space ((a @ CHR '' '' # b) # ws) = a @ CHR '' '' # join_with_space (b # ws)"
  by (cases ws) simp_all

lemma nth_after_prefix:
  "(pre @ x # ys) ! length pre = x"
  "(pre @ x # y # ys) ! Suc (length pre) = y"
  by (simp_all add: nth_append)

lemma quote_span_closed:
  assumes "\<forall>m \<in> set ms. m \<noteq> [] \<and> last m \<notin> quote_list" "c \<noteq> []" "last c \<in> quote_list"
  shows "quote_span (pre @ x # ms @ c # rest) (length pre) (arr @ [f]) =
           Inr (length pre + length ms + 1, arr @ [join_with_space (f # ms @ [butlast c])])"
  using assms(1)
proof (induction ms arbitrary: pre x f)
  case Nil
  show ?case
    using assms(2,3)
    by (simp add: quote_span.simps [of "pre @ x # c # rest" "length pre"] nth_after_prefix)
next
  case (Cons m ms)
  let ?cl = "pre @ x # (m # ms) @ c # rest"
  have m: "m \<noteq> []" "last m \<notin> quote_list" and ms: "\<forall>m \<in> set ms. m \<noteq> [] \<and> last m \<notin> quote_list"
    using Cons.prems by simp_all
  have eq: "?cl = (pre @ [x]) @ m # ms @ c # rest"
    by simp
  have "quote_span ?cl (length pre) (arr @ [f]) =
          quote_span ?cl (Suc (length pre)) (arr @ [f @ '' '' @ m])"
    using m by (subst quote_span.simps) (simp add: nth_append)
  also have "\<dots> = quote_span ((pre @ [x]) @ m # ms @ c # rest) (length (pre @ [x]))
                      (arr @ [f @ '' '' @ m])"
    by simp
  also have "\<dots> = Inr (length (pre @ [x]) + length ms + 1,
                        arr @ [join_with_space ((f @ '' '' @ m) # ms @ [butlast c])])"
    by (rule Cons.IH [OF ms])
  finally show ?case
    by (simp add: join_with_space_cons)
qed

lemma quote_span_open:
  assumes "\<forall>m \<in> set ms. m \<noteq> [] \<and> last m \<notin> quote_list"
  shows "quote_span (pre @ x # ms) (length pre) (arr @ [f]) =
           Inr (length pre + length ms + 1, arr @ [join_with_space (f # ms)])"
  using assms
proof (induction ms arbitrary: pre x f)
  case Nil
  have "quote_span (pre @ [x]) (length pre) (arr @ [f]) =
          quote_span (pre @ [x]) (Suc (length pre)) (arr @ [f])"
    by (simp add: quote_span.simps [of "pre @ [x]" "length pre"])
  also have "\<dots> = Inr (Suc (length pre), arr @ [f])"
    by (simp add: quote_span.simps [of "pre @ [x]" "Suc (length pre)"])
  finally show ?case
    by simp
next
  case (Cons m ms)
  let ?cl = "pre @ x # m # ms"
  have m: "m \<noteq> []" "last m \<notin> quote_list" and ms: "\<forall>m \<in> set ms. m \<noteq> [] \<and> last m \<notin> quote_list"
    using Cons.prems by simp_all
  have "quote_span ?cl (length pre) (arr @ [f]) =
          quote_span ?cl (Suc (length pre)) (arr @ [f @ '' '' @ m])"
    using m by (subst quote_span.simps) (simp add: nth_append)
  also have "\<dots> = quote_span ((pre @ [x]) @ m # ms) (length (pre @ [x])) (arr @ [f @ '' '' @ m])"
    by simp
  also have "\<dots> = Inr (length (pre @ [x]) + length ms + 1,
                        arr @ [join_with_space ((f @ '' '' @ m) # ms)])"
    by (rule Cons.IH [OF ms])
  finally show ?case
    by (simp add: join_with_space_cons)
qed

lemma quoted_not_delimiter:
  "q \<noteq> [] \<Longrightarrow> hd q \<in> quote_list \<Longrightarrow> q \<notin> set (map (\<lambda>d. [d]) delimiter_list)"
  by (auto simp: quote_list_def delimiter_list_def)

lemma fix_loop_end: "length cl \<le> i \<Longrightarrow> fix_loop cl i arr = Inr arr"
  by (simp add: fix_loop.simps [of cl i])

lemma fix_loop_plain:
  assumes "\<forall>t \<in> set ps. plain_token t"
  shows "fix_loop (pre @ ps @ rest) (length pre) arr =
           fix_loop (pre @ ps @ rest) (length pre + length ps) (arr @ ps)"
  using assms
proof (induction ps arbitrary: pre arr)
  case Nil
  show ?case by simp
next
  case (Cons p ps)
  let ?cl = "pre @ (p # ps) @ rest"
  have p: "plain_token p" and ps: "\<forall>t \<in> set ps. plain_token t"
    using Cons.prems by simp_all
  have "fix_loop ?cl (length pre) arr = fix_loop ?cl (Suc (length pre)) (arr @ [p])"
    using p by (subst fix_loop.simps) (auto simp: plain_token_def nth_append)
  also have "\<dots> = fix_loop ((pre @ [p]) @ ps @ rest) (length (pre @ [p])) (arr @ [p])"
    by simp
  also have "\<dots> = fix_loop ((pre @ [p]) @ ps @ rest) (length (pre @ [p]) + length ps)
                      ((arr @ [p]) @ ps)"
    by (rule Cons.IH [OF ps])
  finally show ?case
    by simp
qed

lemma fix_loop_closed_span:
  assumes "q \<noteq> []" "hd q \<in> quote_list" "last q \<notin> quote_list"
    and "\<forall>m \<in> set ms. m \<noteq> [] \<and> last m \<notin> quote_list" "c \<noteq> []" "last c \<in> quote_list"
  shows "fix_loop (pre @ q # ms @ c # rest) (length pre) arr =
           fix_loop (pre @ q # ms @ c # rest) (length pre + length ms + 2)
             (arr @ [join_with_space (tl q # ms @ [butlast c])])"
proof -
  let ?cl = "pre @ q # ms @ c # rest"
  have "fix_loop ?cl (length pre) arr =
          (case quote_span ?cl (length pre) (arr @ [tl q]) of
             Inl e \<Rightarrow> Inl e
           | Inr (index', arr') \<Rightarrow> fix_loop ?cl (Suc index') arr')"
    using assms(1-3) quoted_not_delimiter [OF assms(1,2)]
    by (subst fix_loop.simps) (simp add: nth_append)
  then show ?thesis
    by (simp add: quote_span_closed [OF assms(4-6)])
qed

lemma fix_loop_open_span:
  assumes "q \<noteq> []" "hd q \<in> quote_list" "last q \<notin> quote_list"
    and "\<forall>m \<in> set ms. m \<noteq> [] \<and> last m \<notin> quote_list"
  shows "fix_loop (pre @ q # ms) (length pre) arr = Inr (arr @ [join_with_space (tl q # ms)])"
proof -
  let ?cl = "pre @ q # ms"
  have "fix_loop ?cl (length pre) arr =
          (case quote_span ?cl (length pre) (arr @ [tl q]) of
             Inl e \<Rightarrow> Inl e
           | Inr (index', arr') \<Rightarrow> fix_loop ?cl (Suc index') arr')"
    using assms(1-3) quoted_not_delimiter [OF assms(1,2)]
    by (subst fix_loop.simps) (simp add: nth_append)
  then show ?thesis
    by (simp add: quote_span_open [OF assms(4)] fix_loop_end)
qed

lemmas tokenizer_simps =
  split_data_line_def clean_line_of_def py_split_def py_strip_def strip_with_def
  py_isspace_def Py_ISSPACE_def delimiter_list_def quote_list_def
  fix_loop.simps quote_span.simps

lemma best_split_None:
  "best_split ds s n t = None \<Longrightarrow> t = None \<and> (\<forall>d \<in> set ds. length (py_split_on d s) \<le> n)"
  by (induction ds arbitrary: n t) (auto simp: Let_def split: if_splits)

lemma best_split_Some:
  assumes "best_split ds s n t = Some d"
    and "\<forall>d0. t = Some d0 \<longrightarrow> length (py_split_on d0 s) = n"
  shows "n \<le> length (py_split_on d s) \<and>
         (\<forall>d' \<in> set ds. length (py_split_on d' s) \<le> length (py_split_on d s)) \<and>
         (t = Some d \<or> (d \<in> set ds \<and> n < length (py_split_on d s)))"
  using assms
proof (induction ds arbitrary: n t)
  case Nil
  then show ?case by simp
next
  case (Cons a ds)
  show ?case
  proof (cases "n < length (py_split_on a s)")
    case True
    with Cons.prems(1) have "best_split ds s (length (py_split_on a s)) (Some a) = Some d"
      by (simp add: Let_def)
    from Cons.IH [OF this] have
      "length (py_split_on a s) \<le> length (py_split_on d s) \<and>
       (\<forall>d' \<in> set ds. length (py_split_on d' s) \<le> length (py_split_on d s)) \<and>
       (Some a = Some d \<or> (d \<in> set ds \<and> length (py_split_on a s) < length (py_split_on d s)))"
      by simp
    with True show ?thesis
      by auto
  next
    case False
    with Cons.prems(1) have "best_split ds s n t = Some d"
      by (simp add: Let_def)
    from Cons.IH [OF this Cons.prems(2)] False show ?thesis
      by auto
  qed
qed

lemma split_ws_nonempty: "t \<in> set (split_ws s w) \<Longrightarrow> t \<noteq> []"
  by (induction s arbitrary: w) (auto split: if_splits)

lemma py_split_nonempty: "t \<in> set (py_split s) \<Longrightarrow> t \<noteq> []"
  unfolding py_split_def by (rule split_ws_nonempty)

text \<open>
  A quoted span is merged into one field when the tokens behind its first one are not
  empty (the tokens of the split at white space never are): when the tokens of the
  line are plain tokens \<open>pre\<close>, a token \<open>q\<close> that starts with a quote and does not end
  with one, tokens \<open>ms\<close> that do not end with a quote, a token \<open>c\<close> that ends with a
  quote, and \<open>rest\<close>, the loop goes on behind \<open>c\<close> with one more field, which is \<open>q\<close>
  without its first character, \<open>ms\<close> and \<open>c\<close> without its last character joined by
  single spaces (and returns the plain tokens around that field when \<open>rest\<close> is
  plain); when no token behind \<open>q\<close> ends with a quote, all of them are absorbed into
  the field. \<^verbatim>\<open>split_data_line('a "hello world" b')\<close> returns
  \<^verbatim>\<open>['a', 'hello world', 'b']\<close>.
\<close>

theorem split_data_line_quoted_span:
  "(clean_line_of line external_file = pre @ q # ms @ c # rest \<and>
    (\<forall>t \<in> set pre. plain_token t) \<and>
    q \<noteq> [] \<and> hd q \<in> quote_list \<and> last q \<notin> quote_list \<and>
    (\<forall>m \<in> set ms. m \<noteq> [] \<and> last m \<notin> quote_list) \<and>
    c \<noteq> [] \<and> last c \<in> quote_list
    \<longrightarrow>
      split_data_line line external_file =
        fix_loop (pre @ q # ms @ c # rest) (length pre + length ms + 2)
          (pre @ [join_with_space (tl q # ms @ [butlast c])]) \<and>
      ((\<forall>t \<in> set rest. plain_token t) \<longrightarrow>
         split_data_line line external_file =
           Inr (pre @ [join_with_space (tl q # ms @ [butlast c])] @ rest))) \<and>
   (clean_line_of line external_file = pre @ q # ms \<and>
    (\<forall>t \<in> set pre. plain_token t) \<and>
    q \<noteq> [] \<and> hd q \<in> quote_list \<and> last q \<notin> quote_list \<and>
    (\<forall>m \<in> set ms. m \<noteq> [] \<and> last m \<notin> quote_list)
    \<longrightarrow>
      split_data_line line external_file = Inr (pre @ [join_with_space (tl q # ms)])) \<and>
   split_data_line ''a \"hello world\" b'' False = Inr [''a'', ''hello world'', ''b'']"
proof (intro conjI impI)
  assume h: "clean_line_of line external_file = pre @ q # ms @ c # rest \<and>
    (\<forall>t \<in> set pre. plain_token t) \<and>
    q \<noteq> [] \<and> hd q \<in> quote_list \<and> last q \<notin> quote_list \<and>
    (\<forall>m \<in> set ms. m \<noteq> [] \<and> last m \<notin> quote_list) \<and>
    c \<noteq> [] \<and> last c \<in> quote_list"
  let ?cl = "pre @ q # ms @ c # rest"
  let ?field = "join_with_space (tl q # ms @ [butlast c])"
  have "fix_loop ([] @ pre @ q # ms @ c # rest) (length ([] :: string list)) [] =
          fix_loop ([] @ pre @ q # ms @ c # rest) (length ([] :: string list) + length pre) ([] @ pre)"
    using h by (intro fix_loop_plain) simp
  then have "fix_loop ?cl 0 [] = fix_loop ?cl (length pre) pre"
    by simp
  also have "\<dots> = fix_loop ?cl (length pre + length ms + 2) (pre @ [?field])"
    using h by (intro fix_loop_closed_span) simp_all
  finally show first: "split_data_line line external_file =
      fix_loop ?cl (length pre + length ms + 2) (pre @ [?field])"
    using h by (simp add: split_data_line_def)
  assume r: "\<forall>t \<in> set rest. plain_token t"
  have "fix_loop ((pre @ q # ms @ [c]) @ rest @ []) (length (pre @ q # ms @ [c])) (pre @ [?field]) =
          fix_loop ((pre @ q # ms @ [c]) @ rest @ []) (length (pre @ q # ms @ [c]) + length rest)
            ((pre @ [?field]) @ rest)"
    using r by (rule fix_loop_plain)
  then have "fix_loop ?cl (length pre + length ms + 2) (pre @ [?field]) =
          fix_loop ?cl (length ?cl) (pre @ [?field] @ rest)"
    by (simp add: add.assoc)
  also have "\<dots> = Inr (pre @ [?field] @ rest)"
    by (rule fix_loop_end) simp
  finally show "split_data_line line external_file = Inr (pre @ [?field] @ rest)"
    using first by simp
next
  assume h: "clean_line_of line external_file = pre @ q # ms \<and>
    (\<forall>t \<in> set pre. plain_token t) \<and>
    q \<noteq> [] \<and> hd q \<in> quote_list \<and> last q \<notin> quote_list \<and>
    (\<forall>m \<in> set ms. m \<noteq> [] \<and> last m \<notin> quote_list)"
  let ?cl = "pre @ q # ms"
  have "fix_loop ([] @ pre @ q # ms) (length ([] :: string list)) [] =
          fix_loop ([] @ pre @ q # ms) (length ([] :: string list) + length pre) ([] @ pre)"
    using h by (intro fix_loop_plain) simp
  then have "fix_loop ?cl 0 [] = fix_loop ?cl (length pre) pre"
    by simp
  also have "\<dots> = Inr (pre @ [join_with_space (tl q # ms)])"
    using h by (intro fix_loop_open_span) simp_all
  finally show "split_data_line line external_file = Inr (pre @ [join_with_space (tl q # ms)])"
    using h by (simp add: split_data_line_def)
next
  show "split_data_line ''a \"hello world\" b'' False = Inr [''a'', ''hello world'', ''b'']"
    by (simp add: tokenizer_simps)
qed

theorem split_data_line_quoted_span_witness:
  "split_data_line ''k \"a b  c\" z'' False = Inr [''k'', ''a b c'', ''z''] \<and>
   split_data_line ''k \"open end '' False = Inr [''k'', ''open end'']"
proof -
  have closed: "clean_line_of ''k \"a b  c\" z'' False = [''k''] @ ''\"a'' # [''b''] @ ''c\"'' # [''z''] \<and>
    (\<forall>t \<in> set [''k'']. plain_token t) \<and>
    ''\"a'' \<noteq> [] \<and> hd ''\"a'' \<in> quote_list \<and> last ''\"a'' \<notin> quote_list \<and>
    (\<forall>m \<in> set [''b'']. m \<noteq> [] \<and> last m \<notin> quote_list) \<and>
    ''c\"'' \<noteq> [] \<and> last ''c\"'' \<in> quote_list"
    by (simp add: tokenizer_simps plain_token_def)
  have rest: "\<forall>t \<in> set [''z'']. plain_token t"
    by (simp add: plain_token_def delimiter_list_def quote_list_def)
  have opened: "clean_line_of ''k \"open end '' False = [''k''] @ ''\"open'' # [''end''] \<and>
    (\<forall>t \<in> set [''k'']. plain_token t) \<and>
    ''\"open'' \<noteq> [] \<and> hd ''\"open'' \<in> quote_list \<and> last ''\"open'' \<notin> quote_list \<and>
    (\<forall>m \<in> set [''end'']. m \<noteq> [] \<and> last m \<notin> quote_list)"
    by (simp add: tokenizer_simps plain_token_def)
  from split_data_line_quoted_span
         [of "''k \"a b  c\" z''" False "[''k'']" "''\"a''" "[''b'']" "''c\"''" "[''z'']"]
       closed rest
  have 1: "split_data_line ''k \"a b  c\" z'' False =
             Inr ([''k''] @ [join_with_space (tl ''\"a'' # [''b''] @ [butlast ''c\"''])] @ [''z''])"
    by blast
  from split_data_line_quoted_span
         [of "''k \"open end ''" False "[''k'']" "''\"open''" "[''end'']"]
       opened
  have 2: "split_data_line ''k \"open end '' False =
             Inr ([''k''] @ [join_with_space (tl ''\"open'' # [''end''])])"
    by blast
  from 1 2 show ?thesis
    by simp
qed

text \<open>
  C3. The specification has \<^verbatim>\<open>split_data_line\<close> merge every quoted span into one
  field, the absorbed tokens joined by single spaces. With \<^verbatim>\<open>external_file\<close> the line
  \<^verbatim>\<open>a "hello  world" b\<close>, with two spaces inside the quotes, is split at its spaces
  (five fields, one more than the split at white space gives), so an empty token
  stands between \<^verbatim>\<open>"hello\<close> and \<^verbatim>\<open>world"\<close>. Behind the opening token the inner loop
  reads \<^verbatim>\<open>item[-1]\<close> of the empty token and raises \<^verbatim>\<open>IndexError\<close> (the outer loop
  tests \<^verbatim>\<open>item and ...\<close> before it reads \<^verbatim>\<open>item[0]\<close>): no field is returned for the
  span.
\<close>

theorem split_data_line_raises_on_empty_token:
  "clean_line_of ''a \"hello  world\" b'' True = [''a'', ''\"hello'', '''', ''world\"'', ''b''] \<and>
   split_data_line ''a \"hello  world\" b'' True = Inl IndexError"
  by (simp add: tokenizer_simps)

text \<open>
  C4. With \<^verbatim>\<open>external_file\<close> the trimmed line is also split at each of comma, tab and
  space. When no delimiter gives more fields than the split at white space, that split
  is kept; otherwise the tokens are the split at a delimiter that gives strictly more
  fields than the split at white space and at least as many as every other delimiter.
  \<^verbatim>\<open>split_data_line('1,2,,3', external_file=True)\<close> splits at the comma and returns
  four fields, the third one empty.
\<close>

theorem split_data_line_external_delimiter:
  "((\<forall>d \<in> set delimiter_list.
       length (py_split_on d (py_strip line)) \<le> length (py_split (py_strip line)))
    \<longrightarrow> clean_line_of line True = py_split (py_strip line)) \<and>
   ((\<exists>d \<in> set delimiter_list.
       length (py_split (py_strip line)) < length (py_split_on d (py_strip line)))
    \<longrightarrow> (\<exists>d \<in> set delimiter_list.
          clean_line_of line True = py_split_on d (py_strip line) \<and>
          length (py_split (py_strip line)) < length (py_split_on d (py_strip line)) \<and>
          (\<forall>d' \<in> set delimiter_list.
             length (py_split_on d' (py_strip line)) \<le> length (py_split_on d (py_strip line))))) \<and>
   split_data_line line True = fix_loop (clean_line_of line True) 0 [] \<and>
   clean_line_of ''1,2,,3'' True = py_split_on (CHR '','') ''1,2,,3'' \<and>
   split_data_line ''1,2,,3'' True = Inr [''1'', ''2'', '''', ''3'']"
proof (intro conjI impI)
  let ?s = "py_strip line"
  let ?ws = "py_split ?s"
  let ?b = "best_split delimiter_list ?s (length ?ws) None"
  {
    assume le: "\<forall>d \<in> set delimiter_list. length (py_split_on d ?s) \<le> length ?ws"
    have "?b = None"
    proof (cases ?b)
      case (Some d)
      from best_split_Some [OF Some] have "d \<in> set delimiter_list \<and> length ?ws < length (py_split_on d ?s)"
        by simp
      with le show ?thesis
        by (auto simp: not_less [symmetric])
    qed simp
    then show "clean_line_of line True = ?ws"
      by (simp add: clean_line_of_def)
  }
  {
    assume "\<exists>d \<in> set delimiter_list. length ?ws < length (py_split_on d ?s)"
    then obtain d0 where d0: "d0 \<in> set delimiter_list" "length ?ws < length (py_split_on d0 ?s)"
      by blast
    obtain d where d: "?b = Some d"
    proof (cases ?b)
      case None
      from best_split_None [OF None] d0 show ?thesis
        by (auto simp: not_less [symmetric])
    qed blast
    from best_split_Some [OF d] have
      "d \<in> set delimiter_list" "length ?ws < length (py_split_on d ?s)"
      "\<forall>d' \<in> set delimiter_list. length (py_split_on d' ?s) \<le> length (py_split_on d ?s)"
      by simp_all
    moreover from d have "clean_line_of line True = py_split_on d ?s"
      by (simp add: clean_line_of_def)
    ultimately show "\<exists>d \<in> set delimiter_list.
          clean_line_of line True = py_split_on d ?s \<and>
          length ?ws < length (py_split_on d ?s) \<and>
          (\<forall>d' \<in> set delimiter_list. length (py_split_on d' ?s) \<le> length (py_split_on d ?s))"
      by blast
  }
  show "split_data_line line True = fix_loop (clean_line_of line True) 0 []"
    by (simp add: split_data_line_def)
  show "clean_line_of ''1,2,,3'' True = py_split_on (CHR '','') ''1,2,,3''"
    by (simp add: tokenizer_simps)
  show "split_data_line ''1,2,,3'' True = Inr [''1'', ''2'', '''', ''3'']"
    by (simp add: tokenizer_simps)
qed

theorem split_data_line_external_delimiter_witness:
  "clean_line_of ''a b'' True = [''a'', ''b''] \<and>
   (\<exists>d \<in> set delimiter_list.
      clean_line_of ''a  b'' True = py_split_on d ''a  b'' \<and>
      length (py_split ''a  b'') < length (py_split_on d ''a  b''))"
proof -
  have s1: "py_strip ''a b'' = ''a b''" and s2: "py_strip ''a  b'' = ''a  b''"
    by (simp_all add: py_strip_def strip_with_def py_isspace_def Py_ISSPACE_def)
  have none: "\<forall>d \<in> set delimiter_list.
      length (py_split_on d (py_strip ''a b'')) \<le> length (py_split (py_strip ''a b''))"
    by (simp add: s1 delimiter_list_def py_split_def py_isspace_def Py_ISSPACE_def)
  have some: "\<exists>d \<in> set delimiter_list.
      length (py_split (py_strip ''a  b'')) < length (py_split_on d (py_strip ''a  b''))"
    by (simp add: s2 delimiter_list_def py_split_def py_isspace_def Py_ISSPACE_def)
  from split_data_line_external_delimiter [of "''a b''"] none
  have "clean_line_of ''a b'' True = py_split (py_strip ''a b'')"
    by blast
  then have 1: "clean_line_of ''a b'' True = [''a'', ''b'']"
    by (simp add: s1 py_split_def py_isspace_def Py_ISSPACE_def)
  from split_data_line_external_delimiter [of "''a  b''"] some
  have "\<exists>d \<in> set delimiter_list.
          clean_line_of ''a  b'' True = py_split_on d (py_strip ''a  b'') \<and>
          length (py_split (py_strip ''a  b'')) < length (py_split_on d (py_strip ''a  b''))"
    by blast
  with 1 show ?thesis
    by (simp only: s2) 
qed
section \<open>Properties of the nested-list utilities\<close>

lemma has_one_item_scalar: "has_one_item (Scalar v) = Inr True"
  by (simp add: has_one_item_def)

lemma has_one_item_nested_list: "has_one_item (PList [PList xs]) = Inl TypeError"
  by (simp add: has_one_item_def)

lemma has_one_item_flat:
  "has_one_item (PList xs) = Inr b \<Longrightarrow> b = (\<exists>v. xs = [v] \<and> (\<forall>ys. v \<noteq> PList ys))"
  by (cases xs; cases "tl xs")
     (auto simp: has_one_item_def split: pyval.splits if_splits)

text \<open>
  C9. The specification has \<^verbatim>\<open>has_one_item\<close> evaluate without error, to a boolean, on
  every nested value tree. On the one-element list whose element is the list \<^verbatim>\<open>[1]\<close>
  the source raises \<^verbatim>\<open>TypeError\<close>: \<^verbatim>\<open>len\<close> is applied to the boolean
  \<^verbatim>\<open>current_list[0] != 0\<close>.
\<close>

theorem has_one_item_raises_on_nested:
  "has_one_item (PList [PList [Scalar (1::int)]]) = Inl TypeError"
  by (simp add: has_one_item_def)

lemma next_item_tuple_length:
  "\<forall>t \<in> set (next_item (v::'a pyval) nl nc eol). length t = 4"
  "\<forall>t \<in> set (next_item_loop (xs::'a pyval list) ls n nc'). length t = 4"
  by (induction v nl nc eol and xs ls n nc' rule: next_item_next_item_loop.induct)
     (auto split: pyval.splits)

lemma next_item_length:
  "length (next_item (v::'a pyval) nl nc eol) = leaf_count v"
  "length (next_item_loop (xs::'a pyval list) ls n nc') = sum_list (map leaf_count xs)"
  by (induction v nl nc eol and xs ls n nc' rule: next_item_next_item_loop.induct)
     (auto split: pyval.splits)

lemma size_loop_raises:
  "ts \<noteq> [] \<Longrightarrow> \<forall>t \<in> set ts. length t = 4 \<Longrightarrow> size_loop ts k = Inl ValueError"
  by (cases ts) (auto simp: unpack2_def split: list.splits)

lemma multi_dim_list_size_raises:
  assumes "0 < leaf_count (PList xs)"
  shows "multi_dim_list_size (PList xs) = Inl ValueError"
proof -
  let ?ts = "next_item (PList xs) True 0 True"
  have "length ?ts = leaf_count (PList xs)"
    by (rule next_item_length)
  with assms have "0 < length ?ts"
    by (simp only:)
  then have "?ts \<noteq> []"
    by (rule iffD1 [OF length_greater_0_conv])
  moreover have "\<forall>t \<in> set ?ts. length t = 4"
    by (rule next_item_tuple_length)
  ultimately have "size_loop ?ts 0 = Inl ValueError"
    by (rule size_loop_raises)
  then show ?thesis
    by (simp add: multi_dim_list_size_def)
qed

lemma multi_dim_list_size_no_leaf:
  assumes "leaf_count (PList xs) = 0"
  shows "multi_dim_list_size (PList xs) = Inr 0"
proof -
  have "length (next_item (PList xs) True 0 True) = 0"
    using assms next_item_length(1) [of "PList xs" True 0 True] by simp
  then show ?thesis
    by (simp add: multi_dim_list_size_def)
qed

text \<open>
  C1. The specification has \<^verbatim>\<open>multi_dim_list_size\<close> return the number of scalar
  leaves of every nested value tree. On the list \<^verbatim>\<open>[1]\<close>, which has one leaf, the
  source raises \<^verbatim>\<open>ValueError\<close>: the loop header unpacks the four-component tuple that
  \<^verbatim>\<open>next_item\<close> yields into two targets.
\<close>

theorem multi_dim_list_size_raises_on_singleton:
  "multi_dim_list_size (PList [Scalar (1::int)]) = Inl ValueError"
  by (simp add: multi_dim_list_size_def unpack2_def)

section \<open>Properties of ArrayTemplateGenerator.empty\<close>

lemma build_layers_no_exception:
  "build_layers dt dstl dv dims layers acc \<noteq> Inl (MFDataException m)"
  by (induction layers arbitrary: acc) (auto split: option.splits)

text \<open>
  C7, as the source has it. The length of \<^verbatim>\<open>data_storage_type_list\<close> is compared with
  the number of layers only in a layered call for a field with more than one layer:
  there a list of another length makes \<^verbatim>\<open>empty\<close> print the diagnostic message and
  raise \<^verbatim>\<open>MFDataException\<close> with it, and nothing is returned. Every other call
  (not layered, at most one layer, no list, or a list of the right length) does not
  raise \<^verbatim>\<open>MFDataException\<close>.
\<close>

theorem empty_wrong_size_raises:
  "(layered \<and> dimension_list_of s \<noteq> [] \<and> 1 < hd (dimension_list_of s) \<and>
    int (length l) \<noteq> hd (dimension_list_of s)
    \<longrightarrow> ArrayTemplateGenerator_empty s layered (Some l) default_value =
          (Inl (MFDataException (wrong_size_message (length l) (hd (dimension_list_of s)))),
           [wrong_size_message (length l) (hd (dimension_list_of s))])) \<and>
   (\<not> (layered \<and> dimension_list_of s \<noteq> [] \<and> 1 < hd (dimension_list_of s) \<and>
       (\<exists>l'. data_storage_type_list = Some l' \<and> int (length l') \<noteq> hd (dimension_list_of s)))
    \<longrightarrow> fst (ArrayTemplateGenerator_empty s layered data_storage_type_list default_value)
          \<noteq> Inl (MFDataException m))"
proof (intro conjI impI)
  assume "layered \<and> dimension_list_of s \<noteq> [] \<and> 1 < hd (dimension_list_of s) \<and>
    int (length l) \<noteq> hd (dimension_list_of s)"
  then show "ArrayTemplateGenerator_empty s layered (Some l) default_value =
          (Inl (MFDataException (wrong_size_message (length l) (hd (dimension_list_of s)))),
           [wrong_size_message (length l) (hd (dimension_list_of s))])"
    by (simp add: ArrayTemplateGenerator_empty_def Let_def)
next
  assume "\<not> (layered \<and> dimension_list_of s \<noteq> [] \<and> 1 < hd (dimension_list_of s) \<and>
       (\<exists>l'. data_storage_type_list = Some l' \<and> int (length l') \<noteq> hd (dimension_list_of s)))"
  then show "fst (ArrayTemplateGenerator_empty s layered data_storage_type_list default_value)
          \<noteq> Inl (MFDataException m)"
    using build_layers_no_exception
    by (auto simp: ArrayTemplateGenerator_empty_def Let_def
             split: option.splits list.splits sum.splits)
qed

theorem empty_wrong_size_raises_witness:
  "ArrayTemplateGenerator_empty
     \<lparr>datum_type_of = np_float, data_type_of = other_DataType, dimension_list_of = [3, 4, 5]\<rparr>
     True (Some [internal_constant, internal_array]) None =
   (Inl (MFDataException
      ''data_storage_type_list specified with the wrong size.  Size 2 but expected to be the same as the number of layers, 3.''),
    [''data_storage_type_list specified with the wrong size.  Size 2 but expected to be the same as the number of layers, 3.''])"
proof -
  let ?s = "\<lparr>datum_type_of = np_float, data_type_of = other_DataType, dimension_list_of = [3, 4, 5]\<rparr>"
  let ?l = "[internal_constant, internal_array]"
  have h: "True \<and> dimension_list_of ?s \<noteq> [] \<and> 1 < hd (dimension_list_of ?s) \<and>
           int (length ?l) \<noteq> hd (dimension_list_of ?s)"
    by simp
  have msg: "wrong_size_message (length ?l) (hd (dimension_list_of ?s)) =
    ''data_storage_type_list specified with the wrong size.  Size 2 but expected to be the same as the number of layers, 3.''"
    by (simp add: wrong_size_message_def str_int_def str_nat.simps)
  from empty_wrong_size_raises [of True ?s ?l None, THEN conjunct1, THEN mp, OF h]
  show ?thesis
    unfolding msg .
qed

text \<open>
  C7 as the specification states it (every call with a list of another length) does
  not hold.
  A call that is not layered (the default) with a list of one storage type for a field
  of three layers: the lengths differ, and the template of the constant is returned
  without any message.
\<close>

theorem empty_not_layered_returns:
  "ArrayTemplateGenerator_empty
     \<lparr>datum_type_of = np_float, data_type_of = other_DataType, dimension_list_of = [3, 4, 5]\<rparr>
     False (Some [internal_constant]) None =
   (Inr (Template (Whole (Bare (Number (FloatNum 0))))), []) \<and>
   int (length [internal_constant]) \<noteq> hd [3, 4, 5]"
  by (simp add: ArrayTemplateGenerator_empty_def build_layer_def build_type_header_def
      wrap_period_def)

section \<open>Properties of ArrayIndexIter\<close>

lemma successor_length: "successor shape loc = Some loc' \<Longrightarrow> length loc' = length loc"
  by (induction shape loc arbitrary: loc' rule: successor.induct)
     (auto split: option.splits if_splits)

lemma successor_snoc:
  "length ss = length xs \<Longrightarrow>
     successor (ss @ [s]) (xs @ [x]) =
       (if x < s - 1 then Some (xs @ [x + 1])
        else map_option (\<lambda>p. p @ [0]) (successor ss xs))"
  by (induction ss xs rule: list_induct2) (auto split: option.splits)

lemma advance_prefix:
  "length pre = length spre \<Longrightarrow>
     advance \<lparr>array_shape = spre @ ssuf, current_location = pre @ suf, first_item = f,
              current_index = int (length pre) - 1\<rparr> =
       (case successor spre pre of
          Some p \<Rightarrow>
            (location_result
               \<lparr>array_shape = spre @ ssuf, current_location = p @ suf, first_item = f,
                current_index = int (length (pre @ suf)) - 1\<rparr>,
             \<lparr>array_shape = spre @ ssuf, current_location = p @ suf, first_item = f,
              current_index = int (length (pre @ suf)) - 1\<rparr>)
        | None \<Rightarrow>
            (Inl StopIteration,
             \<lparr>array_shape = spre @ ssuf, current_location = map (\<lambda>item. 0) pre @ suf,
              first_item = f, current_index = - 1\<rparr>))"
proof (induction pre arbitrary: spre ssuf suf rule: rev_induct)
  case Nil
  then show ?case
    by (subst advance.simps) simp
next
  case (snoc x pre)
  from snoc.prems obtain s spre' where spre: "spre = spre' @ [s]" "length pre = length spre'"
    by (cases spre rule: rev_cases) auto
  show ?case
  proof (cases "x < s - 1")
    case True
    then show ?thesis
      unfolding spre
      by (subst advance.simps)
         (simp add: spre(2) successor_snoc nth_append Let_def list_update_append)
  next
    case False
    have "advance \<lparr>array_shape = (spre' @ [s]) @ ssuf, current_location = (pre @ [x]) @ suf,
                    first_item = f, current_index = int (length (pre @ [x])) - 1\<rparr> =
          advance \<lparr>array_shape = spre' @ s # ssuf, current_location = pre @ 0 # suf,
                    first_item = f, current_index = int (length pre) - 1\<rparr>"
      using False
      by (subst advance.simps) (simp add: spre(2) nth_append list_update_append)
    also note snoc.IH [OF spre(2), of "s # ssuf" "0 # suf"]
    finally show ?thesis
      unfolding spre using False
      by (simp add: spre(2) successor_snoc split: option.splits)
  qed
qed

lemma advance_successor:
  assumes "length loc = length shape"
  shows "advance \<lparr>array_shape = shape, current_location = loc, first_item = f,
                  current_index = int (length loc) - 1\<rparr> =
       (case successor shape loc of
          Some p \<Rightarrow>
            (location_result
               \<lparr>array_shape = shape, current_location = p, first_item = f,
                current_index = int (length loc) - 1\<rparr>,
             \<lparr>array_shape = shape, current_location = p, first_item = f,
              current_index = int (length loc) - 1\<rparr>)
        | None \<Rightarrow>
            (Inl StopIteration,
             \<lparr>array_shape = shape, current_location = map (\<lambda>item. 0) loc,
              first_item = f, current_index = - 1\<rparr>))"
  using advance_prefix [OF assms, of "[]" "[]" f] by (simp cong: option.case_cong)

subsection \<open>The row-major enumeration\<close>

lemma row_major_Cons_Suc:
  "concat (map (\<lambda>i. map ((#) (int i)) (row_major ns)) [0 ..< Suc k]) =
   concat (map (\<lambda>i. map ((#) (int i)) (row_major ns)) [0 ..< k]) @ map ((#) (int k)) (row_major ns)"
  by simp

lemma row_major_length_elem: "l \<in> set (row_major shape) \<Longrightarrow> length l = length shape"
  by (induction shape arbitrary: l) auto

lemma row_major_bounds:
  "l \<in> set (row_major shape) \<Longrightarrow> i < length shape \<Longrightarrow> 0 \<le> l ! i \<and> l ! i \<le> shape ! i - 1"
proof (induction shape arbitrary: l i)
  case Nil
  then show ?case by simp
next
  case (Cons n ns)
  from Cons.prems(1) obtain k l' where l: "l = int k # l'" "k < nat n" "l' \<in> set (row_major ns)"
    by auto
  show ?case
  proof (cases i)
    case 0
    with l show ?thesis by auto
  next
    case (Suc j)
    with Cons.prems(2) have "j < length ns" by simp
    from Cons.IH [OF l(3) this] Suc l(1) show ?thesis by simp
  qed
qed

lemma row_major_length: "\<forall>s \<in> set shape. 0 < s \<Longrightarrow> length (row_major shape) = nat (prod_list shape)"
proof (induction shape)
  case Nil
  show ?case by simp
next
  case (Cons n ns)
  then have ih: "length (row_major ns) = nat (prod_list ns)" and n: "0 < n"
    by simp_all
  have "length (row_major (n # ns)) = nat n * length (row_major ns)"
    by (simp add: length_concat comp_def sum_list_triv)
  with ih n show ?case
    by (simp add: nat_mult_distrib)
qed

lemma row_major_nonempty: "\<forall>s \<in> set shape. 0 < s \<Longrightarrow> row_major shape \<noteq> []"
proof -
  assume pos: "\<forall>s \<in> set shape. 0 < s"
  then have "0 < prod_list shape"
    by (induction shape) simp_all
  with row_major_length [OF pos] show ?thesis
    by auto
qed

lemma row_major_hd:
  "\<forall>s \<in> set shape. 0 < s \<Longrightarrow> hd (row_major shape) = map (\<lambda>item. 0) shape"
proof (induction shape)
  case Nil
  show ?case by simp
next
  case (Cons n ns)
  then have ih: "hd (row_major ns) = map (\<lambda>item. 0) ns" and ne: "row_major ns \<noteq> []"
    and n: "0 < n"
    by (simp_all add: row_major_nonempty)
  from n obtain m where m: "nat n = Suc m"
    by (cases "nat n") auto
  have "[0 ..< Suc m] = 0 # [Suc 0 ..< Suc m]"
    by (simp add: upt_conv_Cons)
  then have "row_major (n # ns) =
      map ((#) 0) (row_major ns) @ concat (map (\<lambda>i. map ((#) (int i)) (row_major ns)) [Suc 0 ..< Suc m])"
    by (simp add: m)
  with ne ih show ?case
    by (simp add: hd_map)
qed

lemma row_major_blocks_last:
  assumes "row_major ns \<noteq> []"
  shows "last (concat (map (\<lambda>i. map ((#) (int i)) (row_major ns)) [0 ..< Suc j])) =
           int j # last (row_major ns)"
  using assms by (simp add: last_map)

lemma row_major_last:
  "\<forall>s \<in> set shape. 0 < s \<Longrightarrow> last (row_major shape) = map (\<lambda>s. s - 1) shape"
proof (induction shape)
  case Nil
  show ?case by simp
next
  case (Cons n ns)
  then have ih: "last (row_major ns) = map (\<lambda>s. s - 1) ns" and ne: "row_major ns \<noteq> []"
    and n: "0 < n"
    by (simp_all add: row_major_nonempty)
  from n obtain m where m: "nat n = Suc m"
    by (cases "nat n") auto
  then have "int m = n - 1"
    by linarith
  with row_major_blocks_last [OF ne, of m] ih show ?case
    by (simp add: m)
qed

lemma row_major_blocks_sorted:
  assumes "sorted_wrt (<) (row_major ns)"
  shows "sorted_wrt (<) (concat (map (\<lambda>i. map ((#) (int i)) (row_major ns)) [0 ..< k]))
         \<and> (\<forall>l \<in> set (concat (map (\<lambda>i. map ((#) (int i)) (row_major ns)) [0 ..< k])).
               \<exists>i l'. l = int i # l' \<and> i < k)"
proof (induction k)
  case 0
  show ?case by simp
next
  case (Suc k)
  have block: "sorted_wrt (<) (map ((#) (int k)) (row_major ns))"
    using assms by (simp add: sorted_wrt_map)
  from Suc block show ?case
    by (simp add: sorted_wrt_append) (auto simp: less_Suc_eq)
qed

lemma row_major_sorted: "sorted_wrt (<) (row_major shape)"
proof (induction shape)
  case Nil
  show ?case by simp
next
  case (Cons n ns)
  from row_major_blocks_sorted [OF Cons.IH, of "nat n"] show ?case
    by simp
qed

lemma row_major_distinct: "distinct (row_major shape)"
  using row_major_sorted [of shape] by (simp add: strict_sorted_iff)

lemma successor_last: "successor shape (map (\<lambda>s. s - 1) shape) = None"
  by (induction shape) simp_all

lemma row_major_chain:
  "\<forall>s \<in> set shape. 0 < s \<Longrightarrow>
     successively (\<lambda>a b. successor shape a = Some b) (row_major shape)"
proof (induction shape)
  case Nil
  show ?case by simp
next
  case (Cons n ns)
  let ?P = "\<lambda>a b. successor (n # ns) a = Some b"
  let ?B = "\<lambda>k. concat (map (\<lambda>i. map ((#) (int i)) (row_major ns)) [0 ..< k])"
  from Cons.prems have pos: "\<forall>s \<in> set ns. 0 < s"
    by simp
  note ih = Cons.IH [OF pos]
  have ne: "row_major ns \<noteq> []"
    by (rule row_major_nonempty [OF pos])
  have "k \<le> nat n \<Longrightarrow> successively ?P (?B k)" for k
  proof (induction k)
    case 0
    show ?case by simp
  next
    case (Suc k)
    then have prev: "successively ?P (?B k)"
      by simp
    have "successively (\<lambda>a b. ?P (int k # a) (int k # b)) (row_major ns)"
      by (rule successively_mono [OF ih]) simp
    then have block: "successively ?P (map ((#) (int k)) (row_major ns))"
      by (simp add: successively_map)
    have join: "?B k = [] \<or> ?P (last (?B k)) (hd (map ((#) (int k)) (row_major ns)))"
    proof (cases k)
      case 0
      then show ?thesis by simp
    next
      case (Suc j)
      have l: "last (?B (Suc j)) = int j # map (\<lambda>s. s - 1) ns"
        using row_major_blocks_last [OF ne, of j] row_major_last [OF pos] by simp
      have h: "hd (map ((#) (int k)) (row_major ns)) = int k # map (\<lambda>item. 0) ns"
        using ne row_major_hd [OF pos] by (simp add: hd_map)
      from \<open>Suc k \<le> nat n\<close> Suc have "int j < n - 1"
        by linarith
      then have "?P (int j # map (\<lambda>s. s - 1) ns) (int k # map (\<lambda>item. 0) ns)"
        using Suc by (simp add: successor_last comp_def)
      then show ?thesis
        unfolding Suc l h [unfolded Suc] ..
    qed
    have "?B (Suc k) = ?B k @ map ((#) (int k)) (row_major ns)"
      by simp
    with prev block join show ?case
      by (simp only: successively_append_iff) blast
  qed
  from this [of "nat n"] show ?case
    by simp
qed

subsection \<open>Iterating the object\<close>

lemma zeros_eq: "length loc = length shape \<Longrightarrow> map (\<lambda>item. 0 :: int) loc = map (\<lambda>item. 0) shape"
  by (simp add: map_replicate_const)

lemma location_result_present:
  assumes "length loc = length shape" "shape \<noteq> []"
  shows "location_result \<lparr>array_shape = shape, current_location = loc, first_item = f,
                          current_index = i\<rparr> =
           Inr (if length shape = 1 then Index (hd loc) else Location loc)"
proof (cases loc)
  case Nil
  with assms show ?thesis by simp
next
  case (Cons x xs)
  with assms(1) show ?thesis
    by (cases xs) (auto simp: location_result_def)
qed

lemma iterate_chain:
  assumes "shape \<noteq> []"
  shows "length c = length shape \<Longrightarrow>
     successively (\<lambda>a b. successor shape a = Some b) (c # rest) \<Longrightarrow>
     successor shape (last (c # rest)) = None \<Longrightarrow>
     iterate \<lparr>array_shape = shape, current_location = c, first_item = False,
              current_index = int (length shape) - 1\<rparr> =
       Some (Inr (map (\<lambda>l. if length shape = 1 then Index (hd l) else Location l) rest),
             exhausted shape)"
proof (induction rest arbitrary: c)
  case Nil
  then have "successor shape c = None"
    by simp
  with Nil.prems(1) have
    "ArrayIndexIter_next \<lparr>array_shape = shape, current_location = c, first_item = False,
                          current_index = int (length shape) - 1\<rparr> =
       (Inl StopIteration, exhausted shape)"
    using advance_successor [of c shape False]
    by (simp add: ArrayIndexIter_next_def exhausted_def zeros_eq [OF Nil.prems(1)])
  then show ?case
    by (subst iterate.simps) simp
next
  case (Cons c' rest)
  from Cons.prems(2) have step: "successor shape c = Some c'"
    and chain: "successively (\<lambda>a b. successor shape a = Some b) (c' # rest)"
    by simp_all
  from successor_length [OF step] Cons.prems(1) have len: "length c' = length shape"
    by simp
  from Cons.prems(3) have fin: "successor shape (last (c' # rest)) = None"
    by simp
  let ?st' = "\<lparr>array_shape = shape, current_location = c', first_item = False,
               current_index = int (length shape) - 1\<rparr>"
  have "ArrayIndexIter_next \<lparr>array_shape = shape, current_location = c, first_item = False,
                             current_index = int (length shape) - 1\<rparr> =
          (Inr (if length shape = 1 then Index (hd c') else Location c'), ?st')"
    using advance_successor [of c shape False] Cons.prems(1) step
      location_result_present [OF len assms]
    by (simp add: ArrayIndexIter_next_def)
  then show ?case
    by (subst iterate.simps) (simp add: Cons.IH [OF len chain fin])
qed

lemma iterate_init:
  assumes "shape \<noteq> []" "\<forall>s \<in> set shape. 0 < s"
  shows "iterate (ArrayIndexIter_init shape) = Some (Inr (coordinates shape), exhausted shape)"
proof -
  let ?present = "\<lambda>l. if length shape = 1 then Index (hd l) else Location l"
  let ?zeros = "map (\<lambda>item. 0 :: int) shape"
  let ?st = "\<lparr>array_shape = shape, current_location = ?zeros, first_item = False,
              current_index = int (length shape) - 1\<rparr>"
  from row_major_nonempty [OF assms(2)] row_major_hd [OF assms(2)]
  obtain rest where rm: "row_major shape = ?zeros # rest"
    by (cases "row_major shape") auto
  have first: "ArrayIndexIter_next (ArrayIndexIter_init shape) = (Inr (?present ?zeros), ?st)"
    using location_result_present [of ?zeros shape False "int (length shape) - 1"] assms(1)
    by (simp add: ArrayIndexIter_next_def ArrayIndexIter_init_def)
  have chain: "successively (\<lambda>a b. successor shape a = Some b) (?zeros # rest)"
    using row_major_chain [OF assms(2)] by (simp only: rm)
  have "last (?zeros # rest) = map (\<lambda>s. s - 1) shape"
    using row_major_last [OF assms(2)] by (simp only: rm)
  then have fin: "successor shape (last (?zeros # rest)) = None"
    by (simp only: successor_last)
  have "iterate ?st = Some (Inr (map ?present rest), exhausted shape)"
    by (rule iterate_chain [OF assms(1) _ chain fin]) simp
  with first have "iterate (ArrayIndexIter_init shape) =
      Some (Inr (map ?present (?zeros # rest)), exhausted shape)"
    by (subst iterate.simps) simp
  also have "map ?present (?zeros # rest) = coordinates shape"
    by (simp only: rm [symmetric] coordinates_def if_distrib [of "\<lambda>f. map f (row_major shape)"])
       simp
  finally show ?thesis .
qed

lemma coordinates_distinct:
  assumes "shape \<noteq> []"
  shows "distinct (coordinates shape)"
proof (cases "length shape = 1")
  case True
  have "inj_on hd (set (row_major shape))"
  proof (rule inj_onI)
    fix a b
    assume "a \<in> set (row_major shape)" "b \<in> set (row_major shape)" "hd a = hd b"
    with True row_major_length_elem [of a shape] row_major_length_elem [of b shape]
    show "a = b"
      by (cases a; cases b) auto
  qed
  then have "inj_on (\<lambda>l. Index (hd l)) (set (row_major shape))"
    by (auto simp: inj_on_def)
  with True show ?thesis
    by (simp add: coordinates_def distinct_map row_major_distinct)
next
  case False
  then show ?thesis
    by (simp add: coordinates_def distinct_map row_major_distinct inj_on_def)
qed

lemma exhausted_stays:
  "ArrayIndexIter_next (exhausted shape) = (Inl StopIteration, exhausted shape)"
  unfolding ArrayIndexIter_next_def exhausted_def
  by (subst advance.simps) simp

text \<open>
  C2, as the source has it. For every shape of rank at least 1 with positive sizes,
  iterating \<^verbatim>\<open>ArrayIndexIter(shape)\<close> ends: the coordinates it yields are those of
  \<open>row_major shape\<close> in that order, each as a single integer when the rank is 1 and as
  a tuple otherwise, and afterwards \<^verbatim>\<open>__next__\<close> raises \<^verbatim>\<open>StopIteration\<close> and leaves
  the object as it is. There are as many coordinates as the product of the sizes,
  without duplicates; each has one component per axis, within \<open>0\<close> and the size minus
  \<open>1\<close>; they are strictly increasing in the lexicographic order (the last axis varies
  fastest); the first is all zeros and the last has every component at its size
  minus \<open>1\<close>.
\<close>

theorem ArrayIndexIter_row_major:
  "shape \<noteq> [] \<and> (\<forall>s \<in> set shape. 0 < s) \<longrightarrow>
     iterate (ArrayIndexIter_init shape) = Some (Inr (coordinates shape), exhausted shape) \<and>
     ArrayIndexIter_next (exhausted shape) = (Inl StopIteration, exhausted shape) \<and>
     coordinates shape =
       (if length shape = 1 then map (\<lambda>l. Index (hd l)) (row_major shape)
        else map Location (row_major shape)) \<and>
     length (coordinates shape) = nat (prod_list shape) \<and>
     distinct (coordinates shape) \<and>
     (\<forall>l \<in> set (row_major shape).
        length l = length shape \<and> (\<forall>i < length shape. 0 \<le> l ! i \<and> l ! i \<le> shape ! i - 1)) \<and>
     sorted_wrt (<) (row_major shape) \<and>
     hd (row_major shape) = map (\<lambda>s. 0) shape \<and>
     last (row_major shape) = map (\<lambda>s. s - 1) shape"
proof (intro impI conjI)
  assume h: "shape \<noteq> [] \<and> (\<forall>s \<in> set shape. 0 < s)"
  then have ne: "shape \<noteq> []" and pos: "\<forall>s \<in> set shape. 0 < s"
    by simp_all
  show "iterate (ArrayIndexIter_init shape) = Some (Inr (coordinates shape), exhausted shape)"
    by (rule iterate_init [OF ne pos])
  show "ArrayIndexIter_next (exhausted shape) = (Inl StopIteration, exhausted shape)"
    by (rule exhausted_stays)
  show "coordinates shape =
       (if length shape = 1 then map (\<lambda>l. Index (hd l)) (row_major shape)
        else map Location (row_major shape))"
    by (rule coordinates_def)
  show "length (coordinates shape) = nat (prod_list shape)"
    by (simp add: coordinates_def row_major_length [OF pos])
  show "distinct (coordinates shape)"
    by (rule coordinates_distinct [OF ne])
  show "\<forall>l \<in> set (row_major shape).
        length l = length shape \<and> (\<forall>i < length shape. 0 \<le> l ! i \<and> l ! i \<le> shape ! i - 1)"
    using row_major_length_elem row_major_bounds by blast
  show "sorted_wrt (<) (row_major shape)"
    by (rule row_major_sorted)
  show "hd (row_major shape) = map (\<lambda>s. 0) shape"
    by (rule row_major_hd [OF pos])
  show "last (row_major shape) = map (\<lambda>s. s - 1) shape"
    by (rule row_major_last [OF pos])
qed

theorem ArrayIndexIter_row_major_witness:
  "iterate (ArrayIndexIter_init [2, 3]) =
     Some (Inr [Location [0, 0], Location [0, 1], Location [0, 2],
                Location [1, 0], Location [1, 1], Location [1, 2]], exhausted [2, 3]) \<and>
   iterate (ArrayIndexIter_init [3]) = Some (Inr [Index 0, Index 1, Index 2], exhausted [3])"
proof -
  have h2: "[2, 3 :: int] \<noteq> [] \<and> (\<forall>s \<in> set [2, 3 :: int]. 0 < s)"
    and h1: "[3 :: int] \<noteq> [] \<and> (\<forall>s \<in> set [3 :: int]. 0 < s)"
    by simp_all
  have upt: "[0 ..< 2] = [0, Suc 0]" "[0 ..< 3] = [0, Suc 0, 2]"
    by (simp_all add: upt_rec)
  have c2: "coordinates [2, 3] =
     [Location [0, 0], Location [0, 1], Location [0, 2],
      Location [1, 0], Location [1, 1], Location [1, 2]]"
    by (simp add: coordinates_def upt)
  have c1: "coordinates [3] = [Index 0, Index 1, Index 2]"
    by (simp add: coordinates_def upt)
  from ArrayIndexIter_row_major [of "[2, 3]", THEN mp, OF h2, THEN conjunct1]
       ArrayIndexIter_row_major [of "[3]", THEN mp, OF h1, THEN conjunct1]
  show ?thesis
    by (simp only: c1 c2)
qed

text \<open>
  C2 as the specification states it (every rectangular shape) does not hold.
  The shape of rank 0 has one coordinate, the empty tuple (the empty product is 1).
  The first \<^verbatim>\<open>__next__\<close> reads \<^verbatim>\<open>self.current_location[0]\<close> of the empty location and
  raises \<^verbatim>\<open>IndexError\<close>: nothing is yielded.
\<close>

theorem ArrayIndexIter_rank_0_raises:
  "iterate (ArrayIndexIter_init []) =
     Some (Inl IndexError,
           \<lparr>array_shape = [], current_location = [], first_item = False, current_index = - 1\<rparr>) \<and>
   prod_list ([] :: int list) = 1 \<and> row_major [] = [[]]"
  by (subst iterate.simps)
     (simp add: ArrayIndexIter_next_def ArrayIndexIter_init_def location_result_def)
end
